theory Spec2Isabelle
  imports Main "HOL-Library.Word"
begin

section \<open>Data model (extern.h as used by validate.c and cert.c)\<close>

text \<open>
  Machine integers: \<open>uint32_t\<close> is a 32-bit word, \<open>unsigned char\<close> an 8-bit word,
  a \<open>size_t\<close> that is stored in a record or in the byte stream a 64-bit word (LP64),
  a stored \<open>int\<close> a 32-bit word and \<open>time_t\<close> a 64-bit word, the last two read as
  signed values by \<open>sint\<close>. Where the width of \<open>size_t\<close> decides what the code does,
  in the counter of \<open>cert_insert_brks\<close>, it is a parameter. Return codes (0, 1, the sign of a
  comparison) are integers. A C string is the list of its bytes before the terminator;
  a nullable \<open>char *\<close> is a \<open>string option\<close> with \<open>None\<close> for NULL. An array together
  with its element count (\<open>ips\<close>/\<open>ipsz\<close>, \<open>as\<close>/\<open>asz\<close>) is a list.
\<close>

type_synonym u8 = "8 word"
type_synonym u32 = "32 word"
type_synonym size_t = "64 word"
type_synonym c_int = "32 word"
type_synonym time_t = "64 word"

datatype afi = AFI_IPV4 | AFI_IPV6

datatype cert_purpose = CERT_PURPOSE_INVALID | CERT_PURPOSE_CA | CERT_PURPOSE_BGPSEC_ROUTER

datatype cert_as_type = CERT_AS_ID | CERT_AS_INHERIT | CERT_AS_RANGE

datatype cert_ip_type = CERT_IP_ADDR | CERT_IP_INHERIT | CERT_IP_RANGE

text \<open>\<open>struct cert_as\<close>: the type tag and the union of \<open>id\<close> and \<open>range\<close>.\<close>

datatype cert_as = AS_Id u32 | AS_Inherit | AS_Range u32 u32

fun as_type :: "cert_as \<Rightarrow> cert_as_type" where
  "as_type (AS_Id _) = CERT_AS_ID"
| "as_type AS_Inherit = CERT_AS_INHERIT"
| "as_type (AS_Range _ _) = CERT_AS_RANGE"

record ip_addr =
  addr :: "u8 list"
  prefixlen :: u8

text \<open>The union of \<open>struct cert_ip\<close>: a single prefix, nothing, or a range.\<close>

datatype cert_ip_data = IP_Addr ip_addr | IP_Inherit | IP_Range ip_addr ip_addr

fun ip_data_type :: "cert_ip_data \<Rightarrow> cert_ip_type" where
  "ip_data_type (IP_Addr _) = CERT_IP_ADDR"
| "ip_data_type IP_Inherit = CERT_IP_INHERIT"
| "ip_data_type (IP_Range _ _) = CERT_IP_RANGE"

record cert_ip =
  ip_afi :: afi
  ip_min :: "u8 list"
  ip_max :: "u8 list"
  ip_data :: cert_ip_data

definition ip_type :: "cert_ip \<Rightarrow> cert_ip_type" where
  "ip_type p = ip_data_type (ip_data p)"

record cert =
  ips :: "cert_ip list"
  as :: "cert_as list"
  repo :: "string option"
  mft :: "string option"
  notify :: "string option"
  crl :: "string option"
  aia :: "string option"
  aki :: "string option"
  ski :: "string option"
  tal :: "string option"
  purpose :: cert_purpose
  pubkey :: "string option"
  valid :: c_int
  x509 :: "nat option"
  expires :: time_t

text \<open>
  \<open>struct auth\<close>: the parent pointer is followed upwards only; the parent links of the
  authority tree form a forest, so an authority is a finite chain.
\<close>

datatype auth = Auth (auth_cert: cert) (auth_parent: "auth option") (auth_tal: string) (auth_fn: string)

record roa_ip =
  roa_ip_afi :: afi
  roa_ip_maxlength :: size_t
  roa_ip_min :: "u8 list"
  roa_ip_max :: "u8 list"
  roa_ip_addr :: ip_addr

record roa =
  roa_asid :: u32
  roa_ips :: "roa_ip list"
  roa_valid :: c_int
  roa_ski :: "string option"
  roa_aki :: "string option"
  roa_tal :: "string option"
  roa_expires :: time_t

section \<open>validate.c\<close>

text \<open>
  \<open>as_check_covered\<close> (as.c) and \<open>ip_addr_check_covered\<close> (ip.c) are not part of the
  sources at hand. The walks below take them as the parameter \<open>chk\<close>: an integer-valued
  test, positive for covered, negative for not covered, zero for no answer.
\<close>

type_synonym as_check = "u32 \<Rightarrow> u32 \<Rightarrow> cert_as list \<Rightarrow> int"
type_synonym ip_check = "afi \<Rightarrow> u8 list \<Rightarrow> u8 list \<Rightarrow> cert_ip list \<Rightarrow> int"

fun valid_as :: "as_check \<Rightarrow> auth option \<Rightarrow> u32 \<Rightarrow> u32 \<Rightarrow> int" where
  "valid_as chk None mn mx = 0"
| "valid_as chk (Some (Auth c p t f)) mn mx =
     (if as c \<noteq> [] then
        (let r = chk mn mx (as c) in
         if r > 0 then 1
         else if r < 0 then 0
         else valid_as chk p mn mx)
      else valid_as chk p mn mx)"

fun valid_ip :: "ip_check \<Rightarrow> auth option \<Rightarrow> afi \<Rightarrow> u8 list \<Rightarrow> u8 list \<Rightarrow> int" where
  "valid_ip chk None af mn mx = 0"
| "valid_ip chk (Some (Auth c p t f)) af mn mx =
     (let r = chk af mn mx (ips c) in
      if r > 0 then 1
      else if r < 0 then 0
      else valid_ip chk p af mn mx)"

text \<open>
  The authority tree is a red-black tree ordered by \<open>strcmp\<close> on \<open>cert->ski\<close>; \<open>RB_FIND\<close>
  returns the node whose key compares equal, so the tree is modelled by the list of its
  nodes. The key handed to \<open>auth_find\<close> is dereferenced by \<open>strcmp\<close> as soon as the tree
  has a node: a NULL key on a non-empty tree is a null dereference, the outer \<open>None\<close>.
\<close>

type_synonym auth_tree = "auth list"

definition auth_find :: "auth_tree \<Rightarrow> string option \<Rightarrow> auth option option" where
  "auth_find auths k =
     (if auths = [] then Some None
      else case k of
        None \<Rightarrow> None
      | Some s \<Rightarrow> Some (find (\<lambda>a. ski (auth_cert a) = Some s) auths))"

definition valid_ski_aki :: "auth_tree \<Rightarrow> string option \<Rightarrow> string option \<Rightarrow> auth option option" where
  "valid_ski_aki auths s a =
     (case auth_find auths s of
        None \<Rightarrow> None
      | Some (Some _) \<Rightarrow> Some None
      | Some None \<Rightarrow> auth_find auths a)"

definition valid_ta :: "auth_tree \<Rightarrow> cert \<Rightarrow> int option" where
  "valid_ta auths c =
     (if as c \<noteq> [] \<and> as_type (as c ! 0) = CERT_AS_INHERIT then Some 0
      else if list_ex (\<lambda>p. ip_type p = CERT_IP_INHERIT) (ips c) then Some 0
      else case auth_find auths (ski c) of
        None \<Rightarrow> None
      | Some (Some _) \<Rightarrow> Some 0
      | Some None \<Rightarrow> Some 1)"

text \<open>The loop of \<open>valid_roa\<close> over the prefixes: 0 at the first uncovered one.\<close>

fun valid_roa_ips :: "ip_check \<Rightarrow> auth \<Rightarrow> roa_ip list \<Rightarrow> int" where
  "valid_roa_ips chk a [] = 1"
| "valid_roa_ips chk a (p # ps) =
     (if valid_ip chk (Some a) (roa_ip_afi p) (roa_ip_min p) (roa_ip_max p) \<noteq> 0
      then valid_roa_ips chk a ps
      else 0)"

text \<open>
  \<open>valid_roa\<close> writes \<open>roa->tal\<close>, so the model returns the verdict together with the
  record as the call leaves it.
\<close>

definition valid_roa :: "ip_check \<Rightarrow> auth_tree \<Rightarrow> roa \<Rightarrow> (int \<times> roa) option" where
  "valid_roa chk auths r =
     (case valid_ski_aki auths (roa_ski r) (roa_aki r) of
        None \<Rightarrow> None
      | Some None \<Rightarrow> Some (0, r)
      | Some (Some a) \<Rightarrow>
          (let r' = r\<lparr>roa_tal := Some (auth_tal a)\<rparr>
           in Some (valid_roa_ips chk a (roa_ips r'), r')))"

subsection \<open>libc character and string functions, C locale\<close>

definition uppers :: string where "uppers = ''ABCDEFGHIJKLMNOPQRSTUVWXYZ''"
definition lowers :: string where "lowers = ''abcdefghijklmnopqrstuvwxyz''"
definition digits :: string where "digits = ''0123456789''"

definition isalnum :: "char \<Rightarrow> bool" where
  "isalnum c = (c \<in> set uppers \<or> c \<in> set lowers \<or> c \<in> set digits)"

definition tolower :: "char \<Rightarrow> char" where
  "tolower c = (case map_of (zip uppers lowers) c of Some l \<Rightarrow> l | None \<Rightarrow> c)"

text \<open>\<open>strchr\<close> and \<open>strrchr\<close> return the offset of the first and of the last occurrence.\<close>

fun strchr :: "string \<Rightarrow> char \<Rightarrow> nat option" where
  "strchr [] c = None"
| "strchr (x # xs) c = (if x = c then Some 0 else map_option Suc (strchr xs c))"

fun strrchr :: "string \<Rightarrow> char \<Rightarrow> nat option" where
  "strrchr [] c = None"
| "strrchr (x # xs) c =
     (case strrchr xs c of
        Some i \<Rightarrow> Some (Suc i)
      | None \<Rightarrow> if x = c then Some 0 else None)"

text \<open>\<open>strcasecmp\<close>: the difference of the first two bytes that differ after folding case.\<close>

fun strcasecmp :: "string \<Rightarrow> string \<Rightarrow> int" where
  "strcasecmp [] [] = 0"
| "strcasecmp [] (y # ys) = - int (of_char (tolower y))"
| "strcasecmp (x # xs) [] = int (of_char (tolower x))"
| "strcasecmp (x # xs) (y # ys) =
     (if tolower x = tolower y then strcasecmp xs ys
      else int (of_char (tolower x)) - int (of_char (tolower y)))"

subsection \<open>valid_filename\<close>

fun filename_chars :: "string \<Rightarrow> bool" where
  "filename_chars [] = True"
| "filename_chars (c # cs) =
     (if \<not> isalnum c \<and> c \<noteq> CHR ''-'' \<and> c \<noteq> CHR ''_'' \<and> c \<noteq> CHR ''.'' then False
      else filename_chars cs)"

definition valid_filename :: "string \<Rightarrow> int" where
  "valid_filename fn =
     (let sz = length fn in
      if sz < 5 then 0
      else if \<not> filename_chars fn then 0
      else if strchr fn CHR ''.'' \<noteq> strrchr fn CHR ''.'' then 0
      else if strcasecmp (drop (sz - 4) fn) ''.cer'' = 0 then 1
      else if strcasecmp (drop (sz - 4) fn) ''.crl'' = 0 then 1
      else if strcasecmp (drop (sz - 4) fn) ''.gbr'' = 0 then 1
      else if strcasecmp (drop (sz - 4) fn) ''.roa'' = 0 then 1
      else 0)"

text \<open>The filename rule in the words of the specification.\<close>

definition filename_alphabet :: string where
  "filename_alphabet = ''ABCDEFGHIJKLMNOPQRSTUVWXYZabcdefghijklmnopqrstuvwxyz0123456789._-''"

definition same_letter :: "char \<Rightarrow> char \<Rightarrow> bool" where
  "same_letter a b = (a = b \<or> (a, b) \<in> set (zip uppers lowers) \<or> (b, a) \<in> set (zip uppers lowers))"

definition ends_nocase :: "string \<Rightarrow> string \<Rightarrow> bool" where
  "ends_nocase fn ext =
     (length ext \<le> length fn \<and> list_all2 same_letter (drop (length fn - length ext) fn) ext)"

definition filename_spec :: "string \<Rightarrow> bool" where
  "filename_spec fn =
     (5 \<le> length fn \<and> list_all (\<lambda>c. c \<in> set filename_alphabet) fn \<and>
      count_list fn CHR ''.'' = 1 \<and>
      list_ex (ends_nocase fn) [''.cer'', ''.crl'', ''.gbr'', ''.roa''])"

subsection \<open>The coverage walk in the words of the specification\<close>

datatype answer = Covered | Refused | Indeterminate

text \<open>The ancestors consulted by a walk, nearest first.\<close>

fun chain :: "auth option \<Rightarrow> auth list" where
  "chain None = []"
| "chain (Some (Auth c p t f)) = Auth c p t f # chain p"

definition as_answer :: "as_check \<Rightarrow> u32 \<Rightarrow> u32 \<Rightarrow> auth \<Rightarrow> answer" where
  "as_answer chk mn mx a =
     (if as (auth_cert a) = [] then Indeterminate
      else if chk mn mx (as (auth_cert a)) > 0 then Covered
      else if chk mn mx (as (auth_cert a)) < 0 then Refused
      else Indeterminate)"

definition ip_answer :: "ip_check \<Rightarrow> afi \<Rightarrow> u8 list \<Rightarrow> u8 list \<Rightarrow> auth \<Rightarrow> answer" where
  "ip_answer chk af mn mx a =
     (if chk af mn mx (ips (auth_cert a)) > 0 then Covered
      else if chk af mn mx (ips (auth_cert a)) < 0 then Refused
      else Indeterminate)"

text \<open>
  The verdict of the first ancestor with a definitive answer; 0 when the chain ends
  without one.
\<close>

definition first_definitive :: "(auth \<Rightarrow> answer) \<Rightarrow> auth list \<Rightarrow> int" where
  "first_definitive ans as0 =
     (case find (\<lambda>a. ans a \<noteq> Indeterminate) as0 of
        None \<Rightarrow> 0
      | Some a \<Rightarrow> if ans a = Covered then 1 else 0)"

subsection \<open>Containment tests\<close>

text \<open>
  Modelled from the spec: \<open>as_check_covered\<close> of as.c, which is not among the sources.
  The test answers covered (1) when a non-inheriting entry of the set contains the
  interval, no answer (0) when the set has nothing but inherit entries, and not
  covered (-1) otherwise.
\<close>

fun as_covers :: "u32 \<Rightarrow> u32 \<Rightarrow> cert_as \<Rightarrow> bool" where
  "as_covers mn mx (AS_Id i) = (i \<le> mn \<and> mx \<le> i)"
| "as_covers mn mx AS_Inherit = False"
| "as_covers mn mx (AS_Range lo hi) = (lo \<le> mn \<and> mx \<le> hi)"

definition as_check_covered :: as_check where
  "as_check_covered mn mx es =
     (if list_all (\<lambda>e. as_type e = CERT_AS_INHERIT) es then 0
      else if list_ex (as_covers mn mx) es then 1
      else - 1)"

text \<open>
  Modelled from the spec: \<open>ip_addr_check_covered\<close> of ip.c, which is not among the
  sources. Addresses are compared byte-wise in lexicographic order; the test looks at
  the entries of the queried AFI only and gives no answer (0) when there is none or
  they only inherit.
\<close>

fun bytes_le :: "u8 list \<Rightarrow> u8 list \<Rightarrow> bool" where
  "bytes_le [] ys = True"
| "bytes_le (x # xs) [] = False"
| "bytes_le (x # xs) (y # ys) = (x < y \<or> (x = y \<and> bytes_le xs ys))"

definition ip_covers :: "u8 list \<Rightarrow> u8 list \<Rightarrow> cert_ip \<Rightarrow> bool" where
  "ip_covers mn mx e =
     (ip_type e \<noteq> CERT_IP_INHERIT \<and> bytes_le (ip_min e) mn \<and> bytes_le mx (ip_max e))"

definition ip_addr_check_covered :: ip_check where
  "ip_addr_check_covered af mn mx es =
     (let fs = filter (\<lambda>e. ip_afi e = af) es in
      if list_all (\<lambda>e. ip_type e = CERT_IP_INHERIT) fs then 0
      else if list_ex (ip_covers mn mx) fs then 1
      else - 1)"

subsection \<open>valid_ta and valid_roa as the specification states them\<close>

definition ta_no_inherit_anywhere :: "auth_tree \<Rightarrow> cert \<Rightarrow> bool" where
  "ta_no_inherit_anywhere auths c =
     (\<not> list_ex (\<lambda>e. as_type e = CERT_AS_INHERIT) (as c) \<and>
      \<not> list_ex (\<lambda>p. ip_type p = CERT_IP_INHERIT) (ips c) \<and>
      \<not> list_ex (\<lambda>a. ski (auth_cert a) = ski c) auths)"

definition ta_first_no_inherit :: "auth_tree \<Rightarrow> cert \<Rightarrow> bool" where
  "ta_first_no_inherit auths c =
     (\<not> list_ex (\<lambda>e. as_type e = CERT_AS_INHERIT) (take 1 (as c)) \<and>
      \<not> list_ex (\<lambda>p. ip_type p = CERT_IP_INHERIT) (ips c) \<and>
      \<not> list_ex (\<lambda>a. ski (auth_cert a) = ski c) auths)"

subsection \<open>A trust anchor, a mixed AS set and two ROAs\<close>

definition v4 :: "u8 \<Rightarrow> u8 \<Rightarrow> u8 \<Rightarrow> u8 \<Rightarrow> u8 list" where
  "v4 a b c d = [a, b, c, d, 0, 0, 0, 0, 0, 0, 0, 0, 0, 0, 0, 0]"

definition v4_prefix :: "u8 list \<Rightarrow> u8 list \<Rightarrow> nat \<Rightarrow> cert_ip" where
  "v4_prefix lo hi n =
     \<lparr>ip_afi = AFI_IPV4, ip_min = lo, ip_max = hi,
      ip_data = IP_Addr \<lparr>addr = lo, prefixlen = of_nat n\<rparr>\<rparr>"

definition cert0 :: cert where
  "cert0 =
     \<lparr>ips = [], as = [], repo = None, mft = None, notify = None, crl = None, aia = None,
      aki = None, ski = None, tal = None, purpose = CERT_PURPOSE_INVALID, pubkey = None,
      valid = 0, x509 = None, expires = 0\<rparr>"

definition ta_cert :: cert where
  "ta_cert =
     cert0\<lparr>ips := [v4_prefix (v4 10 0 0 0) (v4 10 255 255 255) 8], as := [AS_Id 64500],
       repo := Some ''rsync://ta.example/repo/'',
       mft := Some ''rsync://ta.example/repo/ta.mft'',
       ski := Some ''AA'', purpose := CERT_PURPOSE_CA\<rparr>"

definition ta_auth :: auth where
  "ta_auth = Auth ta_cert None ''ta.tal'' ''ta.cer''"


definition roa_in :: roa where
  "roa_in =
     \<lparr>roa_asid = 64500,
      roa_ips = [\<lparr>roa_ip_afi = AFI_IPV4, roa_ip_maxlength = 24, roa_ip_min = v4 10 1 0 0,
                  roa_ip_max = v4 10 1 0 255,
                  roa_ip_addr = \<lparr>addr = v4 10 1 0 0, prefixlen = 24\<rparr>\<rparr>],
      roa_valid = 0, roa_ski = Some ''R1'', roa_aki = Some ''AA'', roa_tal = None,
      roa_expires = 0\<rparr>"

definition roa_out :: roa where
  "roa_out =
     \<lparr>roa_asid = 64500,
      roa_ips = [\<lparr>roa_ip_afi = AFI_IPV4, roa_ip_maxlength = 16, roa_ip_min = v4 11 1 0 0,
                  roa_ip_max = v4 11 1 255 255,
                  roa_ip_addr = \<lparr>addr = v4 11 1 0 0, prefixlen = 16\<rparr>\<rparr>],
      roa_valid = 0, roa_ski = Some ''R2'', roa_aki = Some ''AA'', roa_tal = None,
      roa_expires = 0\<rparr>"

section \<open>cert.c: BGPsec router keys\<close>

record brk =
  brk_asid :: u32
  brk_tal :: string
  brk_ski :: string
  brk_pubkey :: string
  brk_expires :: time_t

text \<open>\<open>strcmp\<close> on the bytes as unsigned values; only the sign of the result is defined.\<close>

fun strcmp :: "string \<Rightarrow> string \<Rightarrow> int" where
  "strcmp [] [] = 0"
| "strcmp [] (y # ys) = - 1"
| "strcmp (x # xs) [] = 1"
| "strcmp (x # xs) (y # ys) =
     (if x = y then strcmp xs ys
      else if (of_char x :: nat) < of_char y then - 1 else 1)"

definition brkcmp :: "brk \<Rightarrow> brk \<Rightarrow> int" where
  "brkcmp a b =
     (if brk_asid a > brk_asid b then 1
      else if brk_asid a < brk_asid b then - 1
      else let rv = strcmp (brk_ski a) (brk_ski b) in
        if rv > 0 then 1
        else if rv < 0 then - 1
        else strcmp (brk_pubkey a) (brk_pubkey b))"

text \<open>
  The BRK tree is a red-black tree ordered by \<open>brkcmp\<close>, modelled by the list of its
  nodes. \<open>RB_INSERT\<close> returns the node that compares equal to the new one, if there is
  one, and leaves the tree alone; otherwise it links the new node and returns NULL.
  \<open>brk_later\<close> is the assignment through the returned pointer \<open>found\<close>.
\<close>

type_synonym brk_tree = "brk list"

fun brk_later :: "brk \<Rightarrow> brk_tree \<Rightarrow> brk_tree" where
  "brk_later b [] = []"
| "brk_later b (e # es) =
     (if brkcmp b e = 0 then e\<lparr>brk_tal := brk_tal b, brk_expires := brk_expires b\<rparr> # es
      else e # brk_later b es)"

text \<open>
  \<open>insert_brk\<close> duplicates \<open>cert->tal\<close>, \<open>cert->ski\<close> and \<open>cert->pubkey\<close> with \<open>strdup\<close>;
  a NULL among them is a null dereference, the result \<open>None\<close>. The parameter \<open>asid\<close> is an
  \<open>int\<close> stored into a \<open>uint32_t\<close>: the 32 bits are kept.
\<close>

definition insert_brk :: "brk_tree \<Rightarrow> cert \<Rightarrow> u32 \<Rightarrow> brk_tree option" where
  "insert_brk tree c asid =
     (case tal c of None \<Rightarrow> None | Some t \<Rightarrow>
      case ski c of None \<Rightarrow> None | Some s \<Rightarrow>
      case pubkey c of None \<Rightarrow> None | Some k \<Rightarrow>
        (let b = \<lparr>brk_asid = asid, brk_tal = t, brk_ski = s, brk_pubkey = k,
                  brk_expires = expires c\<rparr>
         in case find (\<lambda>e. brkcmp b e = 0) tree of
              None \<Rightarrow> Some (tree @ [b])
            | Some found \<Rightarrow>
                if sint (brk_expires found) < sint (brk_expires b) then Some (brk_later b tree)
                else Some tree))"

text \<open>
  The expansion loop of \<open>cert_insert_brks\<close>:
  \<open>for (asid = range.min; asid <= range.max; asid++) insert_brk(tree, cert, asid)\<close>
  with the counter a \<open>size_t\<close> and the bound a \<open>uint32_t\<close>. The width of \<open>size_t\<close> is
  the platform's, so the counter is a word of any length \<open>'a\<close>, taken to be at least
  the 32 bits of the bound. Nothing in the loop makes it end, so it is a partial
  function: the result \<open>None\<close> is a loop that does not return, \<open>Some None\<close> the null
  dereference of \<open>insert_brk\<close>, and \<open>Some (Some tree)\<close> the tree it returns.
\<close>

partial_function (option) brk_range ::
  "brk_tree \<Rightarrow> cert \<Rightarrow> 'a::len word \<Rightarrow> u32 \<Rightarrow> brk_tree option option" where
  "brk_range tree c asid mx =
     (if asid \<le> ucast mx then
        (case insert_brk tree c (ucast asid) of
           None \<Rightarrow> Some None
         | Some tree' \<Rightarrow> brk_range tree' c (asid + 1) mx)
      else Some (Some tree))"

text \<open>
  \<open>cert_insert_brks\<close>; the first argument fixes the width of \<open>size_t\<close>.
\<close>

fun cert_insert_brks_loop ::
  "'a::len itself \<Rightarrow> brk_tree \<Rightarrow> cert \<Rightarrow> cert_as list \<Rightarrow> brk_tree option option" where
  "cert_insert_brks_loop w tree c [] = Some (Some tree)"
| "cert_insert_brks_loop w tree c (AS_Id i # es) =
     (case insert_brk tree c i of
        None \<Rightarrow> Some None
      | Some tree' \<Rightarrow> cert_insert_brks_loop w tree' c es)"
| "cert_insert_brks_loop w tree c (AS_Range mn mx # es) =
     (case brk_range tree c (ucast mn :: 'a word) mx of
        None \<Rightarrow> None
      | Some None \<Rightarrow> Some None
      | Some (Some tree') \<Rightarrow> cert_insert_brks_loop w tree' c es)"
| "cert_insert_brks_loop w tree c (AS_Inherit # es) = cert_insert_brks_loop w tree c es"

definition cert_insert_brks :: "'a::len itself \<Rightarrow> brk_tree \<Rightarrow> cert \<Rightarrow> brk_tree option option" where
  "cert_insert_brks w tree c = cert_insert_brks_loop w tree c (as c)"

text \<open>The key of a BRK, and the AS numbers of a range in the order of the loop.\<close>

definition brk_key :: "brk \<Rightarrow> u32 \<times> string \<times> string" where
  "brk_key e = (brk_asid e, brk_ski e, brk_pubkey e)"

definition as_ids :: "u32 \<Rightarrow> u32 \<Rightarrow> u32 list" where
  "as_ids mn mx = map of_nat [unat mn..<Suc (unat mx)]"

fun insert_each :: "brk_tree \<Rightarrow> cert \<Rightarrow> u32 list \<Rightarrow> brk_tree option" where
  "insert_each tree c [] = Some tree"
| "insert_each tree c (i # is) =
     (case insert_brk tree c i of
        None \<Rightarrow> None
      | Some tree' \<Rightarrow> insert_each tree' c is)"

text \<open>
  The AS numbers of a certificate in the order of the two loops, and the entry that
  keeps the later expiry and its TAL.
\<close>

fun cert_asids :: "cert_as list \<Rightarrow> u32 list" where
  "cert_asids [] = []"
| "cert_asids (AS_Id i # es) = i # cert_asids es"
| "cert_asids (AS_Range mn mx # es) = as_ids mn mx @ cert_asids es"
| "cert_asids (AS_Inherit # es) = cert_asids es"

definition keep_later :: "cert \<Rightarrow> string \<Rightarrow> brk \<Rightarrow> brk" where
  "keep_later c t f =
     (if sint (brk_expires f) < sint (expires c)
      then f\<lparr>brk_tal := t, brk_expires := expires c\<rparr>
      else f)"

definition router_cert :: cert where
  "router_cert =
     cert0\<lparr>as := [AS_Id 64500, AS_Range 64510 64512], ski := Some ''BB'', aki := Some ''AA'',
       tal := Some ''ta.tal'', pubkey := Some ''KEY'', purpose := CERT_PURPOSE_BGPSEC_ROUTER,
       expires := 2000\<rparr>"

definition brk0 :: brk where
  "brk0 = \<lparr>brk_asid = 64500, brk_tal = ''old.tal'', brk_ski = ''BB'', brk_pubkey = ''KEY'',
            brk_expires = 1000\<rparr>"

section \<open>validate.c: valid_uri\<close>

definition ispunct :: "char \<Rightarrow> bool" where
  "ispunct c =
     (let n = (of_char c :: nat) in
      (33 \<le> n \<and> n \<le> 47) \<or> (58 \<le> n \<and> n \<le> 64) \<or> (91 \<le> n \<and> n \<le> 96) \<or>
      (123 \<le> n \<and> n \<le> 126))"

definition strncasecmp :: "string \<Rightarrow> string \<Rightarrow> nat \<Rightarrow> int" where
  "strncasecmp a b n = strcasecmp (take n a) (take n b)"

text \<open>\<open>strstr\<close> returns the offset of the first occurrence of the needle.\<close>

fun strstr :: "string \<Rightarrow> string \<Rightarrow> nat option" where
  "strstr [] n = (if n = [] then Some 0 else None)"
| "strstr (h # hs) n =
     (if take (length n) (h # hs) = n then Some 0 else map_option Suc (strstr hs n))"

text \<open>
  \<open>valid_uri(uri, usz, proto)\<close>: the argument is the list of the \<open>usz\<close> bytes, which the
  callers take from an ASN.1 string that a terminator follows. A \<open>proto\<close> of \<open>None\<close> is
  NULL.
\<close>

fun uri_chars :: "string \<Rightarrow> bool" where
  "uri_chars [] = True"
| "uri_chars (c # cs) = (if \<not> isalnum c \<and> \<not> ispunct c then False else uri_chars cs)"

definition valid_uri :: "string \<Rightarrow> string option \<Rightarrow> int" where
  "valid_uri uri proto =
     (if \<not> uri_chars uri then 0
      else if (case proto of None \<Rightarrow> False | Some p \<Rightarrow> strncasecmp uri p (length p) \<noteq> 0) then 0
      else if strstr uri ''/.'' \<noteq> None then 0
      else 1)"

section \<open>cert.c: the SIA extension\<close>

text \<open>
  A parse step either returns non-zero with the certificate under construction
  updated (\<open>Inr\<close>), returns zero (\<open>Inl Rejected\<close>), or dereferences a null pointer
  (\<open>Inl NullDeref\<close>).
\<close>

datatype error = Rejected | NullDeref

text \<open>
  The ASN.1 decoding is done by the library. A value is given by what the decoder makes
  of it: an object identifier, a sequence or octet string with the result of
  \<open>d2i_ASN1_SEQUENCE_ANY\<close> on its bytes (\<open>None\<close> when that fails), a tagged value of
  another class with the content that \<open>ASN1_frame\<close> finds in it (\<open>None\<close> when that
  fails), or a value of some other type.
\<close>

type_synonym oid = "nat list"

datatype asn1_type =
    V_ASN1_OBJECT oid
  | V_ASN1_SEQUENCE "asn1_type list option"
  | V_ASN1_OCTET_STRING "asn1_type list option"
  | V_ASN1_OTHER "string option"
  | V_ASN1_ANY nat

definition carepo_oid :: oid where "carepo_oid = [1, 3, 6, 1, 5, 5, 7, 48, 5]"
definition mft_oid :: oid where "mft_oid = [1, 3, 6, 1, 5, 5, 7, 48, 10]"
definition notify_oid :: oid where "notify_oid = [1, 3, 6, 1, 5, 5, 7, 48, 13]"

definition sbgp_sia_resource_notify :: "cert \<Rightarrow> string \<Rightarrow> error + cert" where
  "sbgp_sia_resource_notify c d =
     (if notify c \<noteq> None then Inl Rejected
      else if valid_uri d (Some ''https://'') = 0 then Inl Rejected
      else Inr (c\<lparr>notify := Some d\<rparr>))"

definition sbgp_sia_resource_mft :: "cert \<Rightarrow> string \<Rightarrow> error + cert" where
  "sbgp_sia_resource_mft c d =
     (if mft c \<noteq> None then Inl Rejected
      else if valid_uri d (Some ''rsync://'') = 0 then Inl Rejected
      else if length d < 4 \<or> strcasecmp (drop (length d - 4) d) ''.mft'' \<noteq> 0 then Inl Rejected
      else Inr (c\<lparr>mft := Some d\<rparr>))"

definition sbgp_sia_resource_carepo :: "cert \<Rightarrow> string \<Rightarrow> error + cert" where
  "sbgp_sia_resource_carepo c d =
     (if repo c \<noteq> None then Inl Rejected
      else if valid_uri d (Some ''rsync://'') = 0 then Inl Rejected
      else Inr (c\<lparr>repo := Some d\<rparr>))"

definition sbgp_sia_resource_entry :: "cert \<Rightarrow> asn1_type list option \<Rightarrow> error + cert" where
  "sbgp_sia_resource_entry c content =
     (case content of
        None \<Rightarrow> Inl Rejected
      | Some seq \<Rightarrow>
          if length seq \<noteq> 2 then Inl Rejected
          else case seq ! 0 of
            V_ASN1_OBJECT obj \<Rightarrow>
              (case seq ! 1 of
                 V_ASN1_OTHER frame \<Rightarrow>
                   (case frame of
                      None \<Rightarrow> Inl Rejected
                    | Some d \<Rightarrow>
                        if obj = carepo_oid then sbgp_sia_resource_carepo c d
                        else if obj = mft_oid then sbgp_sia_resource_mft c d
                        else if obj = notify_oid then sbgp_sia_resource_notify c d
                        else Inr c)
               | _ \<Rightarrow> Inl Rejected)
          | _ \<Rightarrow> Inl Rejected)"

text \<open>The loop of \<open>sbgp_sia_resource\<close> over the accessDescription entries.\<close>

fun sia_entries :: "cert \<Rightarrow> asn1_type list \<Rightarrow> error + cert" where
  "sia_entries c [] = Inr c"
| "sia_entries c (t # ts) =
     (case t of
        V_ASN1_SEQUENCE content \<Rightarrow>
          (case sbgp_sia_resource_entry c content of
             Inl e \<Rightarrow> Inl e
           | Inr c' \<Rightarrow> sia_entries c' ts)
      | _ \<Rightarrow> Inl Rejected)"

text \<open>
  After the loop \<open>strstr(p->res->mft, p->res->repo) != p->res->mft\<close> is evaluated with no
  test of either pointer: a NULL among them is dereferenced by \<open>strstr\<close>.
\<close>

definition sbgp_sia_resource :: "cert \<Rightarrow> asn1_type list option \<Rightarrow> error + cert" where
  "sbgp_sia_resource c payload =
     (case payload of
        None \<Rightarrow> Inl Rejected
      | Some seq \<Rightarrow>
          (case sia_entries c seq of
             Inl e \<Rightarrow> Inl e
           | Inr c' \<Rightarrow>
               (case mft c' of
                  None \<Rightarrow> Inl NullDeref
                | Some m \<Rightarrow>
                    (case repo c' of
                       None \<Rightarrow> Inl NullDeref
                     | Some r \<Rightarrow> if strstr m r \<noteq> Some 0 then Inl Rejected else Inr c'))))"

section \<open>cert.c: cert_parse_inner\<close>

datatype nid =
    NID_sbgp_ipAddrBlock | NID_sbgp_autonomousSysNum | NID_sinfo_access
  | NID_crl_distribution_points | NID_info_access | NID_authority_key_identifier
  | NID_subject_key_identifier | NID_ext_key_usage | NID_undef

definition OBJ_obj2nid :: "oid \<Rightarrow> nid" where
  "OBJ_obj2nid obj =
     (if obj = [1, 3, 6, 1, 5, 5, 7, 1, 7] then NID_sbgp_ipAddrBlock
      else if obj = [1, 3, 6, 1, 5, 5, 7, 1, 8] then NID_sbgp_autonomousSysNum
      else if obj = [1, 3, 6, 1, 5, 5, 7, 1, 11] then NID_sinfo_access
      else if obj = [2, 5, 29, 31] then NID_crl_distribution_points
      else if obj = [1, 3, 6, 1, 5, 5, 7, 1, 1] then NID_info_access
      else if obj = [2, 5, 29, 35] then NID_authority_key_identifier
      else if obj = [2, 5, 29, 14] then NID_subject_key_identifier
      else if obj = [2, 5, 29, 37] then NID_ext_key_usage
      else NID_undef)"

text \<open>
  An extension: its object identifier and what \<open>d2i_ASN1_SEQUENCE_ANY\<close> makes of its
  encoding (\<open>None\<close> when \<open>i2d_X509_EXTENSION\<close> or the decoder fails).
\<close>

record x509_extension =
  ext_object :: oid
  ext_der :: "asn1_type list option"

definition sbgp_sia :: "cert \<Rightarrow> x509_extension \<Rightarrow> error + cert" where
  "sbgp_sia c ext =
     (case ext_der ext of
        None \<Rightarrow> Inl Rejected
      | Some seq \<Rightarrow>
          if length seq \<noteq> 2 then Inl Rejected
          else case seq ! 0 of
            V_ASN1_OBJECT obj \<Rightarrow>
              if OBJ_obj2nid obj \<noteq> NID_sinfo_access then Inl Rejected
              else (case seq ! 1 of
                      V_ASN1_OCTET_STRING payload \<Rightarrow> sbgp_sia_resource c payload
                    | _ \<Rightarrow> Inl Rejected)
          | _ \<Rightarrow> Inl Rejected)"

text \<open>
  The decoded certificate: its extensions and what the helpers of x509.c, which are
  not among the sources, return on it. \<open>x509_get_aki\<close> also takes the flag \<open>ta\<close>.
\<close>

record x509_st =
  x509_handle :: nat
  x509_exts :: "x509_extension list"
  x509_get_aki :: "bool \<Rightarrow> string option"
  x509_get_ski :: "string option"
  x509_get_aia :: "string option"
  x509_get_crl :: "string option"
  x509_get_expire :: time_t
  x509_get_purpose :: cert_purpose
  x509_get_pubkey :: "string option"

text \<open>
  \<open>sbgp_ipaddrblk\<close> and \<open>sbgp_assysnum\<close> append to \<open>res->ips\<close> and \<open>res->as\<close> through
  \<open>append_ip\<close> and \<open>append_as\<close> and touch nothing else; their address and AS parsers
  (ip.c, as.c) are not among the sources, so they are the parameters \<open>ipblk\<close> and
  \<open>asnum\<close>, with \<open>None\<close> for a zero return.
\<close>

type_synonym ipblk_parser = "cert_ip list \<Rightarrow> x509_extension \<Rightarrow> cert_ip list option"
type_synonym asnum_parser = "cert_as list \<Rightarrow> x509_extension \<Rightarrow> cert_as list option"

text \<open>The loop over the extensions; the flag is \<open>sia_present\<close>.\<close>

fun cert_parse_exts ::
  "ipblk_parser \<Rightarrow> asnum_parser \<Rightarrow> cert \<Rightarrow> bool \<Rightarrow> x509_extension list \<Rightarrow> error + (cert \<times> bool)"
where
  "cert_parse_exts ipblk asnum c sia [] = Inr (c, sia)"
| "cert_parse_exts ipblk asnum c sia (ext # exts) =
     (case OBJ_obj2nid (ext_object ext) of
        NID_sbgp_ipAddrBlock \<Rightarrow>
          (case ipblk (ips c) ext of
             None \<Rightarrow> Inl Rejected
           | Some ips' \<Rightarrow> cert_parse_exts ipblk asnum (c\<lparr>ips := ips'\<rparr>) sia exts)
      | NID_sbgp_autonomousSysNum \<Rightarrow>
          (case asnum (as c) ext of
             None \<Rightarrow> Inl Rejected
           | Some as' \<Rightarrow> cert_parse_exts ipblk asnum (c\<lparr>as := as'\<rparr>) sia exts)
      | NID_sinfo_access \<Rightarrow>
          (case sbgp_sia c ext of
             Inl e \<Rightarrow> Inl e
           | Inr c' \<Rightarrow> cert_parse_exts ipblk asnum c' True exts)
      | _ \<Rightarrow> cert_parse_exts ipblk asnum c sia exts)"

text \<open>The switch on the purpose.\<close>

definition cert_purpose_check :: "x509_st \<Rightarrow> bool \<Rightarrow> cert \<Rightarrow> error + cert" where
  "cert_purpose_check x sia c =
     (case purpose c of
        CERT_PURPOSE_CA \<Rightarrow>
          if mft c = None then Inl Rejected
          else if as c = [] \<and> ips c = [] then Inl Rejected
          else Inr c
      | CERT_PURPOSE_BGPSEC_ROUTER \<Rightarrow>
          (let c' = c\<lparr>pubkey := x509_get_pubkey x\<rparr> in
           if pubkey c' = None then Inl Rejected
           else if ips c' \<noteq> [] then Inl Rejected
           else if sia then Inl Rejected
           else Inr c')
      | CERT_PURPOSE_INVALID \<Rightarrow> Inl Rejected)"

text \<open>The tests on \<open>ski\<close>, \<open>aki\<close>, \<open>aia\<close> and \<open>crl\<close>, in the order of the source.\<close>

definition cert_identity_check :: "bool \<Rightarrow> cert \<Rightarrow> error + cert" where
  "cert_identity_check ta c =
     (case ski c of
        None \<Rightarrow> Inl Rejected
      | Some s \<Rightarrow>
          if ta \<and> (case aki c of None \<Rightarrow> False | Some a \<Rightarrow> strcmp a s \<noteq> 0) then Inl Rejected
          else if \<not> ta \<and> aki c = None then Inl Rejected
          else if \<not> ta \<and> (case aki c of None \<Rightarrow> False | Some a \<Rightarrow> strcmp a s = 0) then Inl Rejected
          else if \<not> ta \<and> aia c = None then Inl Rejected
          else if ta \<and> aia c \<noteq> None then Inl Rejected
          else if ta \<and> crl c \<noteq> None then Inl Rejected
          else Inr c)"

text \<open>
  \<open>cert_parse_inner\<close>: \<open>der\<close> is \<open>None\<close> for a NULL buffer and \<open>Some None\<close> for bytes that
  \<open>d2i_X509\<close> rejects. The result \<open>Inl Rejected\<close> is the NULL return.
\<close>

definition cert_parse_inner ::
  "ipblk_parser \<Rightarrow> asnum_parser \<Rightarrow> x509_st option option \<Rightarrow> bool \<Rightarrow> error + cert" where
  "cert_parse_inner ipblk asnum der ta =
     (case der of
        None \<Rightarrow> Inl Rejected
      | Some None \<Rightarrow> Inl Rejected
      | Some (Some x) \<Rightarrow>
          (case cert_parse_exts ipblk asnum cert0 False (x509_exts x) of
             Inl e \<Rightarrow> Inl e
           | Inr (c1, sia_present) \<Rightarrow>
               (let c2 = c1\<lparr>aki := x509_get_aki x ta, ski := x509_get_ski x\<rparr>;
                    c3 = (if \<not> ta then c2\<lparr>aia := x509_get_aia x, crl := x509_get_crl x\<rparr> else c2);
                    c4 = c3\<lparr>expires := x509_get_expire x, purpose := x509_get_purpose x\<rparr>
                in case cert_purpose_check x sia_present c4 of
                     Inl e \<Rightarrow> Inl e
                   | Inr c5 \<Rightarrow>
                       (case cert_identity_check ta c5 of
                          Inl e \<Rightarrow> Inl e
                        | Inr c6 \<Rightarrow> Inr (c6\<lparr>x509 := Some (x509_handle x)\<rparr>)))))"

definition cert_parse :: "ipblk_parser \<Rightarrow> asnum_parser \<Rightarrow> x509_st option option \<Rightarrow> error + cert" where
  "cert_parse ipblk asnum der = cert_parse_inner ipblk asnum der False"

text \<open>Byte prefix, and the identity constraints of the specification.\<close>

definition is_prefix :: "string \<Rightarrow> string \<Rightarrow> bool" where
  "is_prefix r m = (take (length r) m = r)"

definition identity_ok :: "bool \<Rightarrow> cert \<Rightarrow> bool" where
  "identity_ok ta c =
     (if ta then (aki c = None \<or> aki c = ski c) \<and> aia c = None \<and> crl c = None
      else aki c \<noteq> None \<and> aki c \<noteq> ski c \<and> aia c \<noteq> None)"

definition has_sia :: "x509_st \<Rightarrow> bool" where
  "has_sia x = list_ex (\<lambda>e. OBJ_obj2nid (ext_object e) = NID_sinfo_access) (x509_exts x)"

subsection \<open>A trust anchor certificate and three SIA payloads\<close>

definition sia_entry :: "oid \<Rightarrow> string \<Rightarrow> asn1_type" where
  "sia_entry obj uri = V_ASN1_SEQUENCE (Some [V_ASN1_OBJECT obj, V_ASN1_OTHER (Some uri)])"

definition sia_both :: "asn1_type list option" where
  "sia_both =
     Some [sia_entry carepo_oid ''rsync://ta.example/repo/'',
           sia_entry mft_oid ''rsync://ta.example/repo/ta.mft'']"

definition sia_conflict :: "asn1_type list option" where
  "sia_conflict =
     Some [sia_entry carepo_oid ''rsync://ta.example/repo/'',
           sia_entry mft_oid ''rsync://other.example/repo/ta.mft'']"

definition sia_repo_only :: "asn1_type list option" where
  "sia_repo_only = Some [sia_entry carepo_oid ''rsync://ta.example/repo/'']"

definition sia_ext :: "asn1_type list option \<Rightarrow> x509_extension" where
  "sia_ext payload =
     \<lparr>ext_object = [1, 3, 6, 1, 5, 5, 7, 1, 11],
      ext_der = Some [V_ASN1_OBJECT [1, 3, 6, 1, 5, 5, 7, 1, 11], V_ASN1_OCTET_STRING payload]\<rparr>"

definition ipblk0 :: ipblk_parser where
  "ipblk0 is ext = Some (is @ [v4_prefix (v4 10 0 0 0) (v4 10 255 255 255) 8])"

definition asnum0 :: asnum_parser where
  "asnum0 es ext = Some (es @ [AS_Id 64500])"

definition ta_x509 :: x509_st where
  "ta_x509 =
     \<lparr>x509_handle = 1,
      x509_exts = [\<lparr>ext_object = [1, 3, 6, 1, 5, 5, 7, 1, 7], ext_der = None\<rparr>,
                   \<lparr>ext_object = [1, 3, 6, 1, 5, 5, 7, 1, 8], ext_der = None\<rparr>,
                   sia_ext sia_both],
      x509_get_aki = (\<lambda>ta. Some ''AA''), x509_get_ski = Some ''AA'', x509_get_aia = None,
      x509_get_crl = None, x509_get_expire = 3000, x509_get_purpose = CERT_PURPOSE_CA,
      x509_get_pubkey = None\<rparr>"

definition sia_mft_only :: "asn1_type list option" where
  "sia_mft_only = Some [sia_entry mft_oid ''rsync://ta.example/repo/ta.mft'']"

definition ta_parsed :: cert where
  "ta_parsed = ta_cert\<lparr>aki := Some ''AA'', expires := 3000, x509 := Some 1\<rparr>"

section \<open>cert.c: serialization\<close>

text \<open>
  Modelled from the spec: the buffer primitives of io.c (\<open>io_simple_buffer\<close>,
  \<open>io_read_buf\<close>, \<open>io_str_buffer\<close>, \<open>io_read_str\<close>), which are not among the sources. The
  stream is a list of bytes without framing; \<open>io_simple_buffer\<close> appends the object
  representation of a value and \<open>io_read_buf\<close> takes as many bytes from the front.
  Strings are length-prefixed with a \<open>size_t\<close>; a NULL string is written as length 0,
  and a length of 0 is read back as NULL. Integers are stored least significant byte
  first, and an enumeration as the 32-bit integer of its constant.
\<close>

datatype io_error = Short_Read | Bad_Value | Assert_Failed

type_synonym ibuf = "u8 list"
type_synonym 'a reader = "ibuf \<Rightarrow> io_error + ('a \<times> ibuf)"

definition io_simple_buffer :: "ibuf \<Rightarrow> u8 list \<Rightarrow> ibuf" where
  "io_simple_buffer b obj = b @ obj"

definition io_read_buf :: "nat \<Rightarrow> u8 list reader" where
  "io_read_buf n b = (if length b < n then Inl Short_Read else Inr (take n b, drop n b))"

definition rbind :: "io_error + ('a \<times> ibuf) \<Rightarrow> ('a \<Rightarrow> 'b reader) \<Rightarrow> io_error + ('b \<times> ibuf)" where
  "rbind r f = (case r of Inl e \<Rightarrow> Inl e | Inr (x, b) \<Rightarrow> f x b)"

fun le_bytes :: "nat \<Rightarrow> nat \<Rightarrow> u8 list" where
  "le_bytes 0 n = []"
| "le_bytes (Suc k) n = of_nat (n mod 256) # le_bytes k (n div 256)"

fun le_nat :: "u8 list \<Rightarrow> nat" where
  "le_nat [] = 0"
| "le_nat (b # bs) = unat b + 256 * le_nat bs"

definition u32_bytes :: "32 word \<Rightarrow> u8 list" where
  "u32_bytes w = le_bytes 4 (unat w)"

definition u64_bytes :: "64 word \<Rightarrow> u8 list" where
  "u64_bytes w = le_bytes 8 (unat w)"

definition read_u32 :: "32 word reader" where
  "read_u32 b = rbind (io_read_buf 4 b) (\<lambda>bs b'. Inr (of_nat (le_nat bs), b'))"

definition read_u64 :: "64 word reader" where
  "read_u64 b = rbind (io_read_buf 8 b) (\<lambda>bs b'. Inr (of_nat (le_nat bs), b'))"

definition str_bytes :: "string \<Rightarrow> u8 list" where
  "str_bytes s = map (\<lambda>c. of_nat (of_char c)) s"

definition bytes_str :: "u8 list \<Rightarrow> string" where
  "bytes_str bs = map (\<lambda>b. char_of (unat b)) bs"

definition io_str_buffer :: "ibuf \<Rightarrow> string option \<Rightarrow> ibuf" where
  "io_str_buffer b p =
     (case p of
        None \<Rightarrow> io_simple_buffer b (u64_bytes 0)
      | Some s \<Rightarrow> io_simple_buffer (io_simple_buffer b (u64_bytes (of_nat (length s)))) (str_bytes s))"

definition io_read_str :: "string option reader" where
  "io_read_str b =
     rbind (read_u64 b) (\<lambda>sz b1.
       if sz = 0 then Inr (None, b1)
       else rbind (io_read_buf (unat sz) b1) (\<lambda>bs b2. Inr (Some (bytes_str bs), b2)))"

text \<open>
  Modelled from the spec: the constants of the enumerations of extern.h, which is not
  among the sources. A value that is no constant of the enumeration cannot be held by
  the datatype and is reported as \<open>Bad_Value\<close>.
\<close>

fun afi_code :: "afi \<Rightarrow> 32 word" where
  "afi_code AFI_IPV4 = 1"
| "afi_code AFI_IPV6 = 2"

definition read_afi :: "afi reader" where
  "read_afi b =
     rbind (read_u32 b) (\<lambda>v b'.
       if v = 1 then Inr (AFI_IPV4, b') else if v = 2 then Inr (AFI_IPV6, b') else Inl Bad_Value)"

fun cert_ip_type_code :: "cert_ip_type \<Rightarrow> 32 word" where
  "cert_ip_type_code CERT_IP_ADDR = 0"
| "cert_ip_type_code CERT_IP_INHERIT = 1"
| "cert_ip_type_code CERT_IP_RANGE = 2"

definition read_cert_ip_type :: "cert_ip_type reader" where
  "read_cert_ip_type b =
     rbind (read_u32 b) (\<lambda>v b'.
       if v = 0 then Inr (CERT_IP_ADDR, b') else if v = 1 then Inr (CERT_IP_INHERIT, b')
       else if v = 2 then Inr (CERT_IP_RANGE, b') else Inl Bad_Value)"

fun cert_as_type_code :: "cert_as_type \<Rightarrow> 32 word" where
  "cert_as_type_code CERT_AS_ID = 0"
| "cert_as_type_code CERT_AS_INHERIT = 1"
| "cert_as_type_code CERT_AS_RANGE = 2"

definition read_cert_as_type :: "cert_as_type reader" where
  "read_cert_as_type b =
     rbind (read_u32 b) (\<lambda>v b'.
       if v = 0 then Inr (CERT_AS_ID, b') else if v = 1 then Inr (CERT_AS_INHERIT, b')
       else if v = 2 then Inr (CERT_AS_RANGE, b') else Inl Bad_Value)"

fun cert_purpose_code :: "cert_purpose \<Rightarrow> 32 word" where
  "cert_purpose_code CERT_PURPOSE_INVALID = 0"
| "cert_purpose_code CERT_PURPOSE_CA = 1"
| "cert_purpose_code CERT_PURPOSE_BGPSEC_ROUTER = 2"

definition read_cert_purpose :: "cert_purpose reader" where
  "read_cert_purpose b =
     rbind (read_u32 b) (\<lambda>v b'.
       if v = 0 then Inr (CERT_PURPOSE_INVALID, b') else if v = 1 then Inr (CERT_PURPOSE_CA, b')
       else if v = 2 then Inr (CERT_PURPOSE_BGPSEC_ROUTER, b') else Inl Bad_Value)"

text \<open>
  Modelled from the spec: \<open>ip_addr_buffer\<close>, \<open>ip_addr_read\<close>, \<open>ip_addr_range_buffer\<close> and
  \<open>ip_addr_range_read\<close> of ip.c, which are not among the sources: the address payload is
  the 16 address bytes and the prefix length, a range is its two addresses.
\<close>

definition ip_addr_buffer :: "ibuf \<Rightarrow> ip_addr \<Rightarrow> ibuf" where
  "ip_addr_buffer b a = io_simple_buffer b (addr a @ [prefixlen a])"

definition ip_addr_read :: "ip_addr reader" where
  "ip_addr_read b =
     rbind (io_read_buf 17 b) (\<lambda>bs b'. Inr (\<lparr>addr = take 16 bs, prefixlen = bs ! 16\<rparr>, b'))"

definition ip_addr_range_buffer :: "ibuf \<Rightarrow> ip_addr \<Rightarrow> ip_addr \<Rightarrow> ibuf" where
  "ip_addr_range_buffer b lo hi = ip_addr_buffer (ip_addr_buffer b lo) hi"

definition ip_addr_range_read :: "(ip_addr \<times> ip_addr) reader" where
  "ip_addr_range_read b =
     rbind (ip_addr_read b) (\<lambda>lo b1. rbind (ip_addr_read b1) (\<lambda>hi b2. Inr ((lo, hi), b2)))"

subsection \<open>The writers of cert.c\<close>

definition cert_ip_buffer :: "ibuf \<Rightarrow> cert_ip \<Rightarrow> ibuf" where
  "cert_ip_buffer b p =
     (let b1 = io_simple_buffer b (u32_bytes (afi_code (ip_afi p)));
          b2 = io_simple_buffer b1 (u32_bytes (cert_ip_type_code (ip_type p)));
          b3 = (if ip_type p \<noteq> CERT_IP_INHERIT
                then io_simple_buffer (io_simple_buffer b2 (ip_min p)) (ip_max p)
                else b2)
      in case ip_data p of
           IP_Range lo hi \<Rightarrow> ip_addr_range_buffer b3 lo hi
         | IP_Addr a \<Rightarrow> ip_addr_buffer b3 a
         | IP_Inherit \<Rightarrow> b3)"

definition cert_as_buffer :: "ibuf \<Rightarrow> cert_as \<Rightarrow> ibuf" where
  "cert_as_buffer b p =
     (let b1 = io_simple_buffer b (u32_bytes (cert_as_type_code (as_type p)))
      in case p of
           AS_Range mn mx \<Rightarrow> io_simple_buffer (io_simple_buffer b1 (u32_bytes mn)) (u32_bytes mx)
         | AS_Id i \<Rightarrow> io_simple_buffer b1 (u32_bytes i)
         | AS_Inherit \<Rightarrow> b1)"

text \<open>The two \<open>for\<close> loops of \<open>cert_buffer\<close>.\<close>

fun cert_ips_buffer :: "ibuf \<Rightarrow> cert_ip list \<Rightarrow> ibuf" where
  "cert_ips_buffer b [] = b"
| "cert_ips_buffer b (p # ps) = cert_ips_buffer (cert_ip_buffer b p) ps"

fun cert_ass_buffer :: "ibuf \<Rightarrow> cert_as list \<Rightarrow> ibuf" where
  "cert_ass_buffer b [] = b"
| "cert_ass_buffer b (p # ps) = cert_ass_buffer (cert_as_buffer b p) ps"

definition cert_buffer :: "ibuf \<Rightarrow> cert \<Rightarrow> ibuf" where
  "cert_buffer b p =
     (let b1 = io_simple_buffer b (u32_bytes (valid p));
          b2 = io_simple_buffer b1 (u64_bytes (expires p));
          b3 = io_simple_buffer b2 (u32_bytes (cert_purpose_code (purpose p)));
          b4 = io_simple_buffer b3 (u64_bytes (of_nat (length (ips p))));
          b5 = cert_ips_buffer b4 (ips p);
          b6 = io_simple_buffer b5 (u64_bytes (of_nat (length (as p))));
          b7 = cert_ass_buffer b6 (as p);
          b8 = io_str_buffer b7 (mft p);
          b9 = io_str_buffer b8 (notify p);
          b10 = io_str_buffer b9 (repo p);
          b11 = io_str_buffer b10 (crl p);
          b12 = io_str_buffer b11 (aia p);
          b13 = io_str_buffer b12 (aki p);
          b14 = io_str_buffer b13 (ski p);
          b15 = io_str_buffer b14 (tal p)
      in io_str_buffer b15 (pubkey p))"

subsection \<open>The readers of cert.c\<close>

text \<open>
  The records are allocated with \<open>calloc\<close>: what a reader does not store stays zero,
  the \<open>min\<close> and \<open>max\<close> of an inherit entry as well as the \<open>x509\<close> pointer.
\<close>

definition zero16 :: "u8 list" where
  "zero16 = replicate 16 0"

definition cert_ip_read :: "cert_ip reader" where
  "cert_ip_read b =
     rbind (read_afi b) (\<lambda>af b1.
     rbind (read_cert_ip_type b1) (\<lambda>ty b2.
     rbind (if ty \<noteq> CERT_IP_INHERIT
            then rbind (io_read_buf 16 b2) (\<lambda>mn b3.
                 rbind (io_read_buf 16 b3) (\<lambda>mx b4. Inr ((mn, mx), b4)))
            else Inr ((zero16, zero16), b2)) (\<lambda>mm b5.
       case ty of
         CERT_IP_RANGE \<Rightarrow>
           rbind (ip_addr_range_read b5) (\<lambda>r b6.
             Inr (\<lparr>ip_afi = af, ip_min = fst mm, ip_max = snd mm,
                   ip_data = IP_Range (fst r) (snd r)\<rparr>, b6))
       | CERT_IP_ADDR \<Rightarrow>
           rbind (ip_addr_read b5) (\<lambda>a b6.
             Inr (\<lparr>ip_afi = af, ip_min = fst mm, ip_max = snd mm, ip_data = IP_Addr a\<rparr>, b6))
       | CERT_IP_INHERIT \<Rightarrow>
           Inr (\<lparr>ip_afi = af, ip_min = fst mm, ip_max = snd mm, ip_data = IP_Inherit\<rparr>, b5))))"

definition cert_as_read :: "cert_as reader" where
  "cert_as_read b =
     rbind (read_cert_as_type b) (\<lambda>ty b1.
       case ty of
         CERT_AS_RANGE \<Rightarrow>
           rbind (read_u32 b1) (\<lambda>mn b2. rbind (read_u32 b2) (\<lambda>mx b3. Inr (AS_Range mn mx, b3)))
       | CERT_AS_ID \<Rightarrow> rbind (read_u32 b1) (\<lambda>i b2. Inr (AS_Id i, b2))
       | CERT_AS_INHERIT \<Rightarrow> Inr (AS_Inherit, b1))"

text \<open>The loops \<open>for (i = 0; i < n; i++) read(b, &array[i])\<close>.\<close>

fun read_n :: "nat \<Rightarrow> 'a reader \<Rightarrow> 'a list reader" where
  "read_n 0 rd b = Inr ([], b)"
| "read_n (Suc n) rd b =
     rbind (rd b) (\<lambda>x b1. rbind (read_n n rd b1) (\<lambda>xs b2. Inr (x # xs, b2)))"

definition cert_read :: "cert reader" where
  "cert_read b =
     rbind (read_u32 b) (\<lambda>v b1.
     rbind (read_u64 b1) (\<lambda>e b2.
     rbind (read_cert_purpose b2) (\<lambda>pu b3.
     rbind (read_u64 b3) (\<lambda>ipsz b4.
     rbind (read_n (unat ipsz) cert_ip_read b4) (\<lambda>is b5.
     rbind (read_u64 b5) (\<lambda>asz b6.
     rbind (read_n (unat asz) cert_as_read b6) (\<lambda>es b7.
     rbind (io_read_str b7) (\<lambda>m b8.
     rbind (io_read_str b8) (\<lambda>n b9.
     rbind (io_read_str b9) (\<lambda>r b10.
     rbind (io_read_str b10) (\<lambda>cr b11.
     rbind (io_read_str b11) (\<lambda>ai b12.
     rbind (io_read_str b12) (\<lambda>ak b13.
     rbind (io_read_str b13) (\<lambda>sk b14.
     rbind (io_read_str b14) (\<lambda>tl b15.
     rbind (io_read_str b15) (\<lambda>pk b16.
       if m = None \<and> pu \<noteq> CERT_PURPOSE_BGPSEC_ROUTER then Inl Assert_Failed
       else if sk = None then Inl Assert_Failed
       else Inr (\<lparr>ips = is, as = es, repo = r, mft = m, notify = n, crl = cr, aia = ai,
                  aki = ak, ski = sk, tal = tl, purpose = pu, pubkey = pk, valid = v,
                  x509 = None, expires = e\<rparr>, b16)))))))))))))))))"

subsection \<open>Records within the sizes of the C types\<close>

text \<open>
  The arrays \<open>min\<close>, \<open>max\<close> and \<open>addr\<close> of the C structures hold 16 bytes, and the
  counts and string lengths are values of \<open>size_t\<close>. An inherit entry is written
  without its \<open>min\<close> and \<open>max\<close>, so nothing is asked of them.
\<close>

definition ip_addr_sized :: "ip_addr \<Rightarrow> bool" where
  "ip_addr_sized a = (length (addr a) = 16)"

definition cert_ip_fits :: "cert_ip \<Rightarrow> bool" where
  "cert_ip_fits p =
     (case ip_data p of
        IP_Addr a \<Rightarrow> length (ip_min p) = 16 \<and> length (ip_max p) = 16 \<and> ip_addr_sized a
      | IP_Range lo hi \<Rightarrow>
          length (ip_min p) = 16 \<and> length (ip_max p) = 16 \<and> ip_addr_sized lo \<and> ip_addr_sized hi
      | IP_Inherit \<Rightarrow> True)"

definition str_fits :: "string option \<Rightarrow> bool" where
  "str_fits p = (case p of None \<Rightarrow> True | Some s \<Rightarrow> length s < 2 ^ 64)"

definition cert_fits :: "cert \<Rightarrow> bool" where
  "cert_fits c =
     (list_all cert_ip_fits (ips c) \<and> length (ips c) < 2 ^ 64 \<and> length (as c) < 2 ^ 64 \<and>
      str_fits (mft c) \<and> str_fits (notify c) \<and> str_fits (repo c) \<and> str_fits (crl c) \<and>
      str_fits (aia c) \<and> str_fits (aki c) \<and> str_fits (ski c) \<and> str_fits (tal c) \<and>
      str_fits (pubkey c))"

subsection \<open>What is read back, in the words of the amended claim\<close>

text \<open>
  A string comes back as it was written unless it is empty, which comes back as NULL;
  an IP entry comes back as it was written, the \<open>min\<close> and \<open>max\<close> of an inherit entry
  being zero; the certificate comes back with these fields and a NULL \<open>x509\<close>.
\<close>

definition str_back :: "string option \<Rightarrow> string option" where
  "str_back p = (case p of None \<Rightarrow> None | Some s \<Rightarrow> if s = [] then None else Some s)"

definition cert_ip_back :: "cert_ip \<Rightarrow> cert_ip" where
  "cert_ip_back p =
     (case ip_data p of
        IP_Inherit \<Rightarrow> p\<lparr>ip_min := zero16, ip_max := zero16\<rparr>
      | _ \<Rightarrow> p)"

definition cert_back :: "cert \<Rightarrow> cert" where
  "cert_back c =
     c\<lparr>ips := map cert_ip_back (ips c), mft := str_back (mft c), notify := str_back (notify c),
       repo := str_back (repo c), crl := str_back (crl c), aia := str_back (aia c),
       aki := str_back (aki c), ski := str_back (ski c), tal := str_back (tal c),
       pubkey := str_back (pubkey c), x509 := None\<rparr>"

text \<open>
  A record without an empty string whose inherit entries have zero \<open>min\<close> and \<open>max\<close>,
  as \<open>sbgp_ipaddrfam\<close> builds them (it clears the entry before it sets the type).
\<close>

definition cert_ip_zeroed :: "cert_ip \<Rightarrow> bool" where
  "cert_ip_zeroed p =
     (case ip_data p of
        IP_Inherit \<Rightarrow> ip_min p = zero16 \<and> ip_max p = zero16
      | _ \<Rightarrow> True)"

definition cert_plain :: "cert \<Rightarrow> bool" where
  "cert_plain c =
     (list_all cert_ip_zeroed (ips c) \<and>
      list_all (\<lambda>p. p \<noteq> Some [])
        [mft c, notify c, repo c, crl c, aia c, aki c, ski c, tal c, pubkey c])"

text \<open>What each writer appends to the buffer.\<close>

definition str_out :: "string option \<Rightarrow> u8 list" where
  "str_out p = io_str_buffer [] p"

definition ip_addr_out :: "ip_addr \<Rightarrow> u8 list" where
  "ip_addr_out a = ip_addr_buffer [] a"

definition cert_ip_out :: "cert_ip \<Rightarrow> u8 list" where
  "cert_ip_out p = cert_ip_buffer [] p"

definition cert_as_out :: "cert_as \<Rightarrow> u8 list" where
  "cert_as_out p = cert_as_buffer [] p"

subsection \<open>Further certificates of the scenarios\<close>

text \<open>
  The trust anchor of scenario S1 carrying an Authority Information Access and a CRL
  location.
\<close>

definition ta_aia_x509 :: x509_st where
  "ta_aia_x509 =
     ta_x509\<lparr>x509_get_aia := Some ''rsync://ta.example/ta.cer'',
       x509_get_crl := Some ''rsync://ta.example/ta.crl''\<rparr>"

text \<open>
  The certificate of scenario S1 as a child: a subject key of its own, and an
  Authority Information Access location that \<open>x509_get_aia\<close> returns as the empty
  string.
\<close>

definition child_x509 :: x509_st where
  "child_x509 = ta_x509\<lparr>x509_handle := 2, x509_get_ski := Some ''CC'', x509_get_aia := Some []\<rparr>"

definition child_parsed :: cert where
  "child_parsed =
     ta_cert\<lparr>aki := Some ''AA'', ski := Some ''CC'', aia := Some [], expires := 3000,
       x509 := Some 2\<rparr>"


section \<open>Verification: validate.c\<close>

subsection \<open>The coverage walks\<close>

lemma valid_as_first: "valid_as chk a mn mx = first_definitive (as_answer chk mn mx) (chain a)"
  by (induction chk a mn mx rule: valid_as.induct)
     (auto simp: first_definitive_def as_answer_def Let_def)

lemma valid_ip_first: "valid_ip chk a af mn mx = first_definitive (ip_answer chk af mn mx) (chain a)"
  by (induction chk a af mn mx rule: valid_ip.induct)
     (auto simp: first_definitive_def ip_answer_def Let_def)

lemma first_definitive_index:
  "first_definitive ans xs = 1 \<longleftrightarrow>
   (\<exists>i<length xs. ans (xs ! i) = Covered \<and> (\<forall>j<i. ans (xs ! j) = Indeterminate))"
  unfolding first_definitive_def
  by (auto simp: find_Some_iff find_None_iff split: option.splits)
     (metis answer.distinct in_set_conv_nth linorder_neqE_nat)+

lemma first_definitive_01: "first_definitive ans xs = 0 \<or> first_definitive ans xs = 1"
  by (simp add: first_definitive_def split: option.splits)

lemma valid_ip_01: "valid_ip chk a af mn mx = 0 \<or> valid_ip chk a af mn mx = 1"
  by (simp add: valid_ip_first first_definitive_01)

text \<open>
  Claim C1. For every authority chain and every queried resource, \<open>valid_as\<close> and
  \<open>valid_ip\<close> return the verdict of the first ancestor, walking the parent links upwards
  from the given authority, whose containment test is definitive: 1 when that answer is
  positive, 0 when it is negative, and 0 when the chain ends (null parent) with no
  definitive answer. An ancestor without an answer is skipped: for AS one whose set is
  empty or whose test returns 0, for IP one whose test returns 0 for the queried AFI.
  The result holds for every containment test \<open>chk\<close>.
\<close>

theorem coverage_walk:
  "valid_as chk a mn mx = first_definitive (as_answer chk mn mx) (chain a) \<and>
   valid_ip chk' a af lo hi = first_definitive (ip_answer chk' af lo hi) (chain a) \<and>
   (valid_as chk a mn mx = 1 \<longleftrightarrow>
      (\<exists>i<length (chain a). as_answer chk mn mx (chain a ! i) = Covered \<and>
         (\<forall>j<i. as_answer chk mn mx (chain a ! j) = Indeterminate))) \<and>
   (valid_ip chk' a af lo hi = 1 \<longleftrightarrow>
      (\<exists>i<length (chain a). ip_answer chk' af lo hi (chain a ! i) = Covered \<and>
         (\<forall>j<i. ip_answer chk' af lo hi (chain a ! j) = Indeterminate))) \<and>
   (valid_as chk a mn mx = 0 \<or> valid_as chk a mn mx = 1) \<and>
   (valid_ip chk' a af lo hi = 0 \<or> valid_ip chk' a af lo hi = 1)"
proof (intro conjI)
  show "valid_as chk a mn mx = first_definitive (as_answer chk mn mx) (chain a)"
    by (rule valid_as_first)
  show "valid_ip chk' a af lo hi = first_definitive (ip_answer chk' af lo hi) (chain a)"
    by (rule valid_ip_first)
  show "valid_as chk a mn mx = 1 \<longleftrightarrow>
      (\<exists>i<length (chain a). as_answer chk mn mx (chain a ! i) = Covered \<and>
         (\<forall>j<i. as_answer chk mn mx (chain a ! j) = Indeterminate))"
    unfolding valid_as_first by (rule first_definitive_index)
  show "valid_ip chk' a af lo hi = 1 \<longleftrightarrow>
      (\<exists>i<length (chain a). ip_answer chk' af lo hi (chain a ! i) = Covered \<and>
         (\<forall>j<i. ip_answer chk' af lo hi (chain a ! j) = Indeterminate))"
    unfolding valid_ip_first by (rule first_definitive_index)
  show "valid_as chk a mn mx = 0 \<or> valid_as chk a mn mx = 1"
    unfolding valid_as_first by (rule first_definitive_01)
  show "valid_ip chk' a af lo hi = 0 \<or> valid_ip chk' a af lo hi = 1"
    by (rule valid_ip_01)
qed

text \<open>
  An authority with an empty certificate below the trust anchor of scenario S1: both
  walks skip it and accept AS 64500 and 10.1.0.0/24 at the anchor.
\<close>

theorem coverage_walk_witness:
  "valid_as as_check_covered (Some (Auth cert0 (Some ta_auth) ''ta.tal'' ''c.cer'')) 64500 64500 = 1 \<and>
   valid_ip ip_addr_check_covered (Some (Auth cert0 (Some ta_auth) ''ta.tal'' ''c.cer'')) AFI_IPV4
     (v4 10 1 0 0) (v4 10 1 0 255) = 1"
proof -
  have "first_definitive (as_answer as_check_covered 64500 64500)
          (chain (Some (Auth cert0 (Some ta_auth) ''ta.tal'' ''c.cer''))) = 1"
    by code_simp
  moreover have "first_definitive (ip_answer ip_addr_check_covered AFI_IPV4 (v4 10 1 0 0) (v4 10 1 0 255))
          (chain (Some (Auth cert0 (Some ta_auth) ''ta.tal'' ''c.cer''))) = 1"
    by code_simp
  ultimately show ?thesis
    using coverage_walk [of as_check_covered "Some (Auth cert0 (Some ta_auth) ''ta.tal'' ''c.cer'')"
      64500 64500 ip_addr_check_covered AFI_IPV4 "v4 10 1 0 0" "v4 10 1 0 255"]
    by (simp only: simp_thms)
qed

subsection \<open>valid_ta\<close>


text \<open>
  If an inherit entry can only be the sole entry of an AS set, the statement of the
  specification and the test of the first entry coincide.
\<close>

lemma ta_sole_inherit:
  assumes "AS_Inherit \<in> set (as c) \<longrightarrow> as c = [AS_Inherit]"
  shows "ta_no_inherit_anywhere auths c \<longleftrightarrow> ta_first_no_inherit auths c"
proof -
  have e: "as_type e = CERT_AS_INHERIT \<longleftrightarrow> e = AS_Inherit" for e
    by (cases e) simp_all
  have "list_ex (\<lambda>e. as_type e = CERT_AS_INHERIT) (as c)
      \<longleftrightarrow> list_ex (\<lambda>e. as_type e = CERT_AS_INHERIT) (take 1 (as c))"
    using assms by (cases "as c") (auto simp: e list_ex_iff)
  then show ?thesis
    by (simp add: ta_no_inherit_anywhere_def ta_first_no_inherit_def)
qed

text \<open>
  What \<open>valid_ta\<close> computes for a certificate with an SKI: it returns 1 if and only if
  the first AS entry (index 0, when the AS set is not empty) is not inherit, no IP entry
  is inherit, and the SKI is not a key of the authority tree; otherwise it returns 0.
\<close>

lemma valid_ta_first:
  assumes "ski c = Some s"
  shows "valid_ta auths c = Some (if ta_first_no_inherit auths c then 1 else 0)"
proof -
  have a: "list_ex (\<lambda>e. as_type e = CERT_AS_INHERIT) (take 1 (as c))
        \<longleftrightarrow> as c \<noteq> [] \<and> as_type (as c ! 0) = CERT_AS_INHERIT"
    by (cases "as c") auto
  have f: "find (\<lambda>a. ski (auth_cert a) = Some s) auths = None
        \<longleftrightarrow> \<not> list_ex (\<lambda>a. ski (auth_cert a) = ski c) auths"
    using assms by (auto simp: find_None_iff list_ex_iff)
  show ?thesis
    unfolding valid_ta_def ta_first_no_inherit_def a
    using assms f by (auto simp: auth_find_def list_ex_iff split: option.splits)
qed

lemma valid_ta_first_example:
  "ski ta_cert = Some ''AA'' \<and> ta_first_no_inherit [] ta_cert \<and> valid_ta [] ta_cert = Some 1 \<and>
   \<not> ta_first_no_inherit [ta_auth] ta_cert \<and> valid_ta [ta_auth] ta_cert = Some 0"
proof -
  have s: "ski ta_cert = Some ''AA''" by code_simp
  have "ta_first_no_inherit [] ta_cert" by code_simp
  moreover have "\<not> ta_first_no_inherit [ta_auth] ta_cert" by code_simp
  ultimately show ?thesis
    using s valid_ta_first [OF s, of "[]"] valid_ta_first [OF s, of "[ta_auth]"] by simp
qed

subsection \<open>valid_roa\<close>

lemma valid_roa_ips_iff:
  "valid_roa_ips chk a ps =
     (if \<forall>p\<in>set ps. valid_ip chk (Some a) (roa_ip_afi p) (roa_ip_min p) (roa_ip_max p) = 1
      then 1 else 0)"
proof (induction ps)
  case Nil
  show ?case by simp
next
  case (Cons p ps)
  show ?case
    using valid_ip_01 [of chk "Some a" "roa_ip_afi p" "roa_ip_min p" "roa_ip_max p"] Cons.IH
    by (simp only: valid_roa_ips.simps) auto
qed

text \<open>
  Claim C4, as stated, fails: the ROA of scenario S5 for 11.1.0.0/16 finds its parent,
  is stamped with the parent's TAL, and is then refused because the prefix is not
  covered. \<open>valid_roa\<close> returns 0 and the record has changed.
\<close>

theorem valid_roa_refused_stamped:
  "valid_roa ip_addr_check_covered [ta_auth] roa_out = Some (0, roa_out\<lparr>roa_tal := Some ''ta.tal''\<rparr>) \<and>
   roa_out\<lparr>roa_tal := Some ''ta.tal''\<rparr> \<noteq> roa_out"
  by code_simp

text \<open>
  Claim C4, amended. \<open>valid_roa\<close> sets \<open>roa.tal\<close> to the TAL of the located parent as soon
  as the parent lookup succeeds, before the prefixes are checked. When it returns 1 the
  parent was found, every prefix is IP-covered by the chain and the record is the input
  with \<open>tal\<close> set to the parent's TAL. When it returns 0, either the lookup failed and the
  record is unchanged, or the parent was found, some prefix is not covered, and the
  record is again the input with \<open>tal\<close> set to the parent's TAL.
\<close>

theorem valid_roa_tal:
  assumes "valid_roa chk auths r = Some (v, r')"
  shows "(v = 1 \<longrightarrow>
            (\<exists>a. valid_ski_aki auths (roa_ski r) (roa_aki r) = Some (Some a) \<and>
                 r' = r\<lparr>roa_tal := Some (auth_tal a)\<rparr> \<and>
                 (\<forall>p\<in>set (roa_ips r).
                    valid_ip chk (Some a) (roa_ip_afi p) (roa_ip_min p) (roa_ip_max p) = 1))) \<and>
         (v \<noteq> 1 \<longrightarrow> v = 0 \<and>
            ((valid_ski_aki auths (roa_ski r) (roa_aki r) = Some None \<and> r' = r) \<or>
             (\<exists>a. valid_ski_aki auths (roa_ski r) (roa_aki r) = Some (Some a) \<and>
                  r' = r\<lparr>roa_tal := Some (auth_tal a)\<rparr> \<and>
                  (\<exists>p\<in>set (roa_ips r).
                     valid_ip chk (Some a) (roa_ip_afi p) (roa_ip_min p) (roa_ip_max p) = 0))))"
proof (cases "valid_ski_aki auths (roa_ski r) (roa_aki r)")
  case None
  with assms show ?thesis by (simp add: valid_roa_def)
next
  case (Some res)
  show ?thesis
  proof (cases res)
    case None
    with Some assms show ?thesis by (auto simp: valid_roa_def)
  next
    case (Some a)
    have "\<not> (\<forall>p\<in>set (roa_ips r). valid_ip chk (Some a) (roa_ip_afi p) (roa_ip_min p) (roa_ip_max p) = 1)
          \<Longrightarrow> \<exists>p\<in>set (roa_ips r). valid_ip chk (Some a) (roa_ip_afi p) (roa_ip_min p) (roa_ip_max p) = 0"
      using valid_ip_01 by blast
    with Some \<open>valid_ski_aki auths (roa_ski r) (roa_aki r) = Some res\<close> assms show ?thesis
      by (auto simp: valid_roa_def Let_def valid_roa_ips_iff split: if_splits)
  qed
qed

text \<open>The covered ROA of scenario S5 (10.1.0.0/24) is accepted and stamped.\<close>

theorem valid_roa_tal_witness:
  "valid_roa ip_addr_check_covered [ta_auth] roa_in = Some (1, roa_in\<lparr>roa_tal := Some ''ta.tal''\<rparr>) \<and>
   (\<exists>a. valid_ski_aki [ta_auth] (roa_ski roa_in) (roa_aki roa_in) = Some (Some a) \<and>
        roa_in\<lparr>roa_tal := Some ''ta.tal''\<rparr> = roa_in\<lparr>roa_tal := Some (auth_tal a)\<rparr> \<and>
        (\<forall>p\<in>set (roa_ips roa_in).
           valid_ip ip_addr_check_covered (Some a) (roa_ip_afi p) (roa_ip_min p) (roa_ip_max p) = 1))"
proof -
  have e: "valid_roa ip_addr_check_covered [ta_auth] roa_in = Some (1, roa_in\<lparr>roa_tal := Some ''ta.tal''\<rparr>)"
    by code_simp
  show ?thesis
    using e valid_roa_tal [OF e] by simp
qed

subsection \<open>valid_filename\<close>

lemma filename_chars_iff: "filename_chars fn \<longleftrightarrow> (\<forall>c\<in>set fn. c \<in> set filename_alphabet)"
  by (induction fn) (auto simp: isalnum_def uppers_def lowers_def digits_def filename_alphabet_def)

lemma strchr_None: "strchr xs c = None \<longleftrightarrow> c \<notin> set xs"
  by (induction xs) auto

lemma strrchr_None: "strrchr xs c = None \<longleftrightarrow> c \<notin> set xs"
  by (induction xs) (auto split: option.splits)

lemma strrchr_neq: "x \<noteq> c \<Longrightarrow> strrchr (x # xs) c = map_option Suc (strrchr xs c)"
  by (simp split: option.splits)

lemma strrchr_eq: "strrchr (c # xs) c = Some 0 \<longleftrightarrow> c \<notin> set xs"
  by (simp add: strrchr_None [symmetric] split: option.splits)

lemma strchr_eq_strrchr: "strchr fn c = strrchr fn c \<longleftrightarrow> count_list fn c \<le> 1"
proof (induction fn)
  case Nil
  show ?case by simp
next
  case (Cons x xs)
  show ?case
  proof (cases "x = c")
    case True
    have "strchr (x # xs) c = strrchr (x # xs) c \<longleftrightarrow> strrchr (c # xs) c = Some 0"
      using True by (simp only: strchr.simps) auto
    then show ?thesis
      using True by (simp only: strrchr_eq) (simp add: count_list_0_iff)
  next
    case False
    have "map_option Suc (strchr xs c) = map_option Suc (strrchr xs c) \<longleftrightarrow> strchr xs c = strrchr xs c"
      by (cases "strchr xs c"; cases "strrchr xs c") auto
    then show ?thesis
      using False Cons.IH by (simp only: strrchr_neq [OF False]) simp
  qed
qed

lemma strcasecmp_zero:
  "length a = length b \<Longrightarrow> strcasecmp a b = 0 \<longleftrightarrow> list_all2 (\<lambda>x y. tolower x = tolower y) a b"
  by (induction a b rule: list_induct2) auto

lemma distinct_uppers: "distinct uppers"
  by (simp add: uppers_def)

lemma length_uppers_lowers: "length uppers = length lowers"
  by (simp add: uppers_def lowers_def)

lemma tolower_other: "x \<notin> set uppers \<Longrightarrow> tolower x = x"
proof -
  assume "x \<notin> set uppers"
  then have "map_of (zip uppers lowers) x = None"
    by (simp add: map_of_zip_is_None [OF length_uppers_lowers])
  then show ?thesis by (simp add: tolower_def)
qed

lemma tolower_upper: "(u, l) \<in> set (zip uppers lowers) \<Longrightarrow> tolower u = l"
proof -
  assume "(u, l) \<in> set (zip uppers lowers)"
  moreover have "distinct (map fst (zip uppers lowers))"
    by (simp add: length_uppers_lowers distinct_uppers)
  ultimately have "map_of (zip uppers lowers) u = Some l"
    by (rule map_of_is_SomeI [rotated])
  then show ?thesis by (simp add: tolower_def)
qed

lemma upper_has_lower: "x \<in> set uppers \<Longrightarrow> \<exists>l. (x, l) \<in> set (zip uppers lowers)"
  using length_uppers_lowers by (metis in_set_impl_in_set_zip1)

lemma tolower_same:
  assumes "y \<notin> set uppers"
  shows "tolower x = tolower y \<longleftrightarrow> same_letter x y"
proof (cases "x \<in> set uppers")
  case True
  then obtain l where l: "(x, l) \<in> set (zip uppers lowers)"
    using upper_has_lower by blast
  have "x \<noteq> y" using True assms by blast
  moreover have "(y, x) \<notin> set (zip uppers lowers)"
    using assms by (blast dest: set_zip_leftD)
  moreover have "(x, y) \<in> set (zip uppers lowers) \<longleftrightarrow> l = y"
    using l tolower_upper by blast
  ultimately show ?thesis
    by (simp add: same_letter_def tolower_upper [OF l] tolower_other [OF assms] eq_commute)
next
  case False
  have "(x, y) \<notin> set (zip uppers lowers)"
    using False by (blast dest: set_zip_leftD)
  moreover have "(y, x) \<notin> set (zip uppers lowers)"
    using assms by (blast dest: set_zip_leftD)
  ultimately show ?thesis
    by (simp add: same_letter_def tolower_other [OF False] tolower_other [OF assms])
qed

lemma ends_nocase_strcasecmp:
  assumes "4 \<le> length fn" and "length ext = 4" and "set ext \<inter> set uppers = {}"
  shows "strcasecmp (drop (length fn - 4) fn) ext = 0 \<longleftrightarrow> ends_nocase fn ext"
proof -
  have len: "length (drop (length fn - 4) fn) = length ext"
    using assms by simp
  have nu: "\<And>y. y \<in> set ext \<Longrightarrow> y \<notin> set uppers"
    using assms(3) by blast
  have "list_all2 (\<lambda>x y. tolower x = tolower y) (drop (length fn - 4) fn) ext
        \<longleftrightarrow> list_all2 same_letter (drop (length fn - 4) fn) ext"
  proof
    assume "list_all2 (\<lambda>x y. tolower x = tolower y) (drop (length fn - 4) fn) ext"
    then show "list_all2 same_letter (drop (length fn - 4) fn) ext"
      by (rule list.rel_mono_strong) (simp add: tolower_same nu)
  next
    assume "list_all2 same_letter (drop (length fn - 4) fn) ext"
    then show "list_all2 (\<lambda>x y. tolower x = tolower y) (drop (length fn - 4) fn) ext"
      by (rule list.rel_mono_strong) (simp add: tolower_same nu)
  qed
  then show ?thesis
    using assms by (simp add: strcasecmp_zero [OF len] ends_nocase_def)
qed

lemma ends_nocase_dot:
  assumes "ends_nocase fn (CHR ''.'' # rest)"
  shows "CHR ''.'' \<in> set fn"
proof -
  from assms obtain x xs where d: "drop (length fn - length (CHR ''.'' # rest)) fn = x # xs"
    and s: "same_letter x CHR ''.''"
    by (auto simp: ends_nocase_def list_all2_Cons2)
  have "x = CHR ''.''"
    using s by (auto simp: same_letter_def uppers_def lowers_def)
  moreover have "x \<in> set fn"
    using d by (metis in_set_dropD list.set_intros(1))
  ultimately show ?thesis by simp
qed

text \<open>
  Claim C8. For every string \<open>fn\<close>, \<open>valid_filename fn\<close> returns 1 if and only if \<open>fn\<close> has
  length at least 5, every character is in \<open>[A-Za-z0-9._-]\<close>, \<open>fn\<close> contains exactly one
  \<open>'.'\<close>, and \<open>fn\<close> ends, ignoring case, in one of \<open>.cer\<close>, \<open>.crl\<close>, \<open>.gbr\<close>, \<open>.roa\<close>;
  otherwise it returns 0.
\<close>

theorem valid_filename_spec: "valid_filename fn = (if filename_spec fn then 1 else 0)"
proof (cases "5 \<le> length fn")
  case False
  then show ?thesis by (simp add: valid_filename_def filename_spec_def)
next
  case len: True
  then have len4: "4 \<le> length fn" by simp
  have ext: "strcasecmp (drop (length fn - 4) fn) ''.cer'' = 0 \<longleftrightarrow> ends_nocase fn ''.cer''"
    "strcasecmp (drop (length fn - 4) fn) ''.crl'' = 0 \<longleftrightarrow> ends_nocase fn ''.crl''"
    "strcasecmp (drop (length fn - 4) fn) ''.gbr'' = 0 \<longleftrightarrow> ends_nocase fn ''.gbr''"
    "strcasecmp (drop (length fn - 4) fn) ''.roa'' = 0 \<longleftrightarrow> ends_nocase fn ''.roa''"
    by (rule ends_nocase_strcasecmp [OF len4]; simp add: uppers_def)+
  have dot: "list_ex (ends_nocase fn) [''.cer'', ''.crl'', ''.gbr'', ''.roa''] \<Longrightarrow> 1 \<le> count_list fn CHR ''.''"
  proof -
    assume "list_ex (ends_nocase fn) [''.cer'', ''.crl'', ''.gbr'', ''.roa'']"
    then have "CHR ''.'' \<in> set fn"
      by (auto dest: ends_nocase_dot)
    then have "count_list fn CHR ''.'' \<noteq> 0"
      by (simp add: count_list_0_iff)
    then show ?thesis by simp
  qed
  show ?thesis
  proof (cases "list_ex (ends_nocase fn) [''.cer'', ''.crl'', ''.gbr'', ''.roa'']")
    case False
    then show ?thesis
      using len by (simp add: valid_filename_def filename_spec_def Let_def ext)
  next
    case True
    from dot [OF True] have "count_list fn CHR ''.'' = 1 \<longleftrightarrow> strchr fn CHR ''.'' = strrchr fn CHR ''.''"
      by (simp add: strchr_eq_strrchr)
    then show ?thesis
      using len True
      by (auto simp: valid_filename_def filename_spec_def Let_def ext filename_chars_iff list_all_iff)
  qed
qed

text \<open>The examples of the specification, on the code and through the theorem.\<close>

lemma valid_filename_examples:
  "valid_filename ''a.cer'' = 1" "valid_filename ''A.CER'' = 1" "valid_filename ''.cer'' = 0"
  "valid_filename ''a.b.cer'' = 0" "valid_filename ''a-b_c.ROA'' = 1" "valid_filename ''a.txt'' = 0"
  by code_simp+

theorem valid_filename_spec_witness:
  "valid_filename ''a-b_c.ROA'' = 1 \<and> filename_spec ''a-b_c.ROA'' \<and>
   valid_filename ''a.b.cer'' = 0 \<and> \<not> filename_spec ''a.b.cer''"
proof -
  have "valid_filename ''a-b_c.ROA'' = 1" and "valid_filename ''a.b.cer'' = 0"
    by code_simp+
  then show ?thesis
    using valid_filename_spec [of "''a-b_c.ROA''"] valid_filename_spec [of "''a.b.cer''"]
    by (simp split: if_splits)
qed

section \<open>Verification: BGPsec router keys\<close>

lemma strcmp_eq: "strcmp a b = 0 \<longleftrightarrow> a = b"
  by (induction a b rule: strcmp.induct) auto

lemma strcmp_refl: "strcmp a a = 0"
  by (simp add: strcmp_eq)

lemma brkcmp_key: "brkcmp a b = 0 \<longleftrightarrow> brk_key a = brk_key b"
  by (auto simp: brkcmp_def brk_key_def Let_def strcmp_eq strcmp_refl)

lemma filter_key_single:
  "distinct (map f xs) \<Longrightarrow> x \<in> set xs \<Longrightarrow> filter (\<lambda>y. f y = f x) xs = [x]"
proof (induction xs)
  case Nil
  then show ?case by simp
next
  case (Cons a xs)
  show ?case
  proof (cases "a = x")
    case True
    have "filter (\<lambda>y. f y = f x) xs = []"
      using Cons.prems(1) True by (auto simp: filter_empty_conv) (metis imageI)
    then show ?thesis using True by simp
  next
    case False
    then have "x \<in> set xs" using Cons.prems(2) by simp
    moreover have "f a \<noteq> f x"
      using Cons.prems(1) \<open>x \<in> set xs\<close> by auto
    ultimately show ?thesis
      using Cons by simp
  qed
qed

lemma find_key:
  "distinct (map brk_key tree) \<Longrightarrow> f \<in> set tree \<Longrightarrow> brk_key f = brk_key b \<Longrightarrow>
   find (\<lambda>e. brkcmp b e = 0) tree = Some f"
proof (induction tree)
  case Nil
  then show ?case by simp
next
  case (Cons a tree)
  show ?case
  proof (cases "a = f")
    case True
    then show ?thesis using Cons.prems by (simp add: brkcmp_key)
  next
    case False
    then have "f \<in> set tree" using Cons.prems by simp
    then have "brk_key a \<noteq> brk_key f" using Cons.prems(1) by auto
    then show ?thesis
      using Cons \<open>f \<in> set tree\<close> by (simp add: brkcmp_key)
  qed
qed

lemma find_None_key:
  "find (\<lambda>e. brkcmp b e = 0) tree = None \<longleftrightarrow> brk_key b \<notin> set (map brk_key tree)"
  by (auto simp: find_None_iff brkcmp_key)

lemma brk_later_keys: "map brk_key (brk_later b tree) = map brk_key tree"
  by (induction tree) (auto simp: brk_key_def)

lemma brk_later_filter_other:
  "K \<noteq> brk_key b \<Longrightarrow>
   filter (\<lambda>x. brk_key x = K) (brk_later b tree) = filter (\<lambda>x. brk_key x = K) tree"
  by (induction tree) (auto simp: brkcmp_key brk_key_def)

lemma brk_key_update: "brk_key (e\<lparr>brk_tal := x, brk_expires := y\<rparr>) = brk_key e"
  by (simp add: brk_key_def)

lemma brk_later_filter_same:
  "distinct (map brk_key tree) \<Longrightarrow> f \<in> set tree \<Longrightarrow> brk_key f = brk_key b \<Longrightarrow>
   filter (\<lambda>x. brk_key x = brk_key b) (brk_later b tree)
     = [f\<lparr>brk_tal := brk_tal b, brk_expires := brk_expires b\<rparr>]"
proof (induction tree)
  case Nil
  then show ?case by simp
next
  case (Cons a tree)
  show ?case
  proof (cases "a = f")
    case True
    have "brk_key b \<notin> set (map brk_key tree)"
      using Cons.prems(1,3) True by simp
    then have e: "filter (\<lambda>x. brk_key x = brk_key b) tree = []"
      by (auto simp: filter_empty_conv) (metis imageI)
    have "brkcmp b f = 0"
      using Cons.prems(3) by (simp only: brkcmp_key)
    then have "brk_later b (a # tree) = f\<lparr>brk_tal := brk_tal b, brk_expires := brk_expires b\<rparr> # tree"
      using True by simp
    then show ?thesis
      using e Cons.prems(3) by (simp add: brk_key_update)
  next
    case False
    then have ft: "f \<in> set tree" using Cons.prems by simp
    then have "brk_key a \<noteq> brk_key f" using Cons.prems(1) by auto
    then have n: "brk_key a \<noteq> brk_key b"
      using Cons.prems(3) by simp
    then have "brkcmp b a \<noteq> 0"
      by (simp only: brkcmp_key) simp
    then have "brk_later b (a # tree) = a # brk_later b tree"
      by simp
    moreover have "filter (\<lambda>x. brk_key x = brk_key b) (brk_later b tree)
        = [f\<lparr>brk_tal := brk_tal b, brk_expires := brk_expires b\<rparr>]"
      using Cons.IH Cons.prems(1,3) ft by simp
    ultimately show ?thesis
      using n by simp
  qed
qed

lemma insert_brk_distinct:
  assumes "distinct (map brk_key tree)" and "insert_brk tree c asid = Some tree'"
  shows "distinct (map brk_key tree')"
  using assms
  by (auto simp: insert_brk_def Let_def brk_later_keys find_None_key
      split: option.splits if_splits)

lemma insert_brk_total:
  "tal c = Some t \<Longrightarrow> ski c = Some s \<Longrightarrow> pubkey c = Some k \<Longrightarrow>
   \<exists>tree'. insert_brk tree c asid = Some tree'"
  by (simp add: insert_brk_def Let_def split: option.splits)

text \<open>What one call of \<open>insert_brk\<close> does to the entries of a key.\<close>

lemma insert_brk_same_key:
  assumes inv: "distinct (map brk_key tree)"
    and c: "tal c = Some t" "ski c = Some s" "pubkey c = Some k"
    and f: "f \<in> set tree" "brk_key f = (asid, s, k)"
  shows "\<exists>tree'. insert_brk tree c asid = Some tree' \<and>
           map brk_key tree' = map brk_key tree \<and>
           filter (\<lambda>x. brk_key x = (asid, s, k)) tree' = [keep_later c t f] \<and>
           (\<not> sint (brk_expires f) < sint (expires c) \<longrightarrow> tree' = tree)"
proof -
  define b where "b = \<lparr>brk_asid = asid, brk_tal = t, brk_ski = s, brk_pubkey = k,
    brk_expires = expires c\<rparr>"
  have kb: "brk_key f = brk_key b" "brk_key b = (asid, s, k)"
    using f(2) by (simp_all add: b_def brk_key_def)
  have be: "brk_expires b = expires c" "brk_tal b = t"
    by (simp_all add: b_def)
  have found: "find (\<lambda>e. brkcmp b e = 0) tree = Some f"
    using inv f(1) kb(1) by (rule find_key)
  show ?thesis
  proof (cases "sint (brk_expires f) < sint (expires c)")
    case False
    have "insert_brk tree c asid = Some tree"
      using c found False be by (simp add: insert_brk_def b_def [symmetric])
    moreover have "filter (\<lambda>x. brk_key x = (asid, s, k)) tree = [keep_later c t f]"
      using filter_key_single [OF inv f(1)] f(2) False by (simp add: keep_later_def)
    ultimately show ?thesis
      by simp
  next
    case True
    have "insert_brk tree c asid = Some (brk_later b tree)"
      using c found True be by (simp add: insert_brk_def b_def [symmetric])
    moreover have "filter (\<lambda>x. brk_key x = (asid, s, k)) (brk_later b tree) = [keep_later c t f]"
      using brk_later_filter_same [OF inv f(1) kb(1)] True by (simp add: kb(2) be keep_later_def)
    ultimately show ?thesis
      using True by (simp add: brk_later_keys)
  qed
qed

lemma insert_brk_other_key:
  assumes c: "ski c = Some s" "pubkey c = Some k"
    and i: "insert_brk tree c i = Some tree'"
    and K: "K \<noteq> (i, s, k)"
  shows "filter (\<lambda>x. brk_key x = K) tree' = filter (\<lambda>x. brk_key x = K) tree"
proof -
  from i obtain t where t: "tal c = Some t"
    by (auto simp: insert_brk_def split: option.splits)
  define b where "b = \<lparr>brk_asid = i, brk_tal = t, brk_ski = s, brk_pubkey = k,
    brk_expires = expires c\<rparr>"
  have kb: "brk_key b = (i, s, k)"
    by (simp add: b_def brk_key_def)
  have "tree' = tree @ [b] \<or> tree' = brk_later b tree \<or> tree' = tree"
    using i c t by (auto simp: insert_brk_def b_def [symmetric] Let_def split: option.splits if_splits)
  then show ?thesis
    using K kb brk_later_filter_other [of K b tree] by auto
qed

lemma keep_later_key: "brk_key (keep_later c t f) = brk_key f"
  by (simp add: keep_later_def brk_key_def)

lemma keep_later_idem: "keep_later c t (keep_later c t f) = keep_later c t f"
  by (simp add: keep_later_def)

text \<open>What a sequence of calls does to the entry of a key that is in the tree.\<close>

lemma insert_each_key:
  assumes c: "tal c = Some t" "ski c = Some s" "pubkey c = Some k"
  shows "distinct (map brk_key tree) \<Longrightarrow> f \<in> set tree \<Longrightarrow> brk_key f = (asid, s, k) \<Longrightarrow>
         insert_each tree c ids = Some tree' \<Longrightarrow>
         distinct (map brk_key tree') \<and>
         filter (\<lambda>x. brk_key x = (asid, s, k)) tree'
           = [if asid \<in> set ids then keep_later c t f else f]"
proof (induction ids arbitrary: tree f)
  case Nil
  then show ?case
    using filter_key_single [of brk_key tree f] by simp
next
  case (Cons i ids)
  from Cons.prems(4) obtain t1 where t1: "insert_brk tree c i = Some t1"
    and r: "insert_each t1 c ids = Some tree'"
    by (auto split: option.splits)
  have d1: "distinct (map brk_key t1)"
    using Cons.prems(1) t1 by (rule insert_brk_distinct)
  show ?case
  proof (cases "i = asid")
    case True
    from insert_brk_same_key [OF Cons.prems(1) c Cons.prems(2,3)] t1 True
    have fk: "filter (\<lambda>x. brk_key x = (asid, s, k)) t1 = [keep_later c t f]"
      by auto
    then have "keep_later c t f \<in> set (filter (\<lambda>x. brk_key x = (asid, s, k)) t1)"
      by simp
    then have m: "keep_later c t f \<in> set t1"
      by simp
    have kk: "brk_key (keep_later c t f) = (asid, s, k)"
      using Cons.prems(3) by (simp add: keep_later_key)
    show ?thesis
      using Cons.IH [OF d1 m kk r] True by (simp add: keep_later_idem)
  next
    case False
    have "filter (\<lambda>x. brk_key x = (asid, s, k)) t1 = filter (\<lambda>x. brk_key x = (asid, s, k)) tree"
      using insert_brk_other_key [OF c(2,3) t1] False by simp
    then have "filter (\<lambda>x. brk_key x = (asid, s, k)) t1 = [f]"
      using filter_key_single [of brk_key tree f] Cons.prems(1,2,3) by simp
    then have "f \<in> set (filter (\<lambda>x. brk_key x = (asid, s, k)) t1)"
      by simp
    then have m: "f \<in> set t1"
      by simp
    show ?thesis
      using Cons.IH [OF d1 m Cons.prems(3) r] False by simp
  qed
qed

lemma insert_each_append:
  "insert_each tree c (xs @ ys) =
     (case insert_each tree c xs of None \<Rightarrow> None | Some t1 \<Rightarrow> insert_each t1 c ys)"
  by (induction xs arbitrary: tree) (simp_all split: option.splits)

lemma insert_each_total:
  assumes "tal c = Some t" "ski c = Some s" "pubkey c = Some k"
  shows "\<exists>tree'. insert_each tree c is = Some tree'"
proof (induction "is" arbitrary: tree)
  case Nil
  show ?case by simp
next
  case (Cons i "is")
  obtain t1 where "insert_brk tree c i = Some t1"
    using insert_brk_total [OF assms] by blast
  then show ?case
    using Cons [of t1] by simp
qed

subsection \<open>The expansion loop\<close>

lemma unat_u32_less: "unat (w :: u32) < 2 ^ 32"
  using unsigned_less [of w, where 'a = nat] by simp

lemma unat_ucast_u32:
  assumes "32 \<le> LENGTH('a::len)"
  shows "unat (ucast (w :: u32) :: 'a word) = unat w"
proof -
  have "(2 :: nat) ^ 32 \<le> 2 ^ LENGTH('a)"
    using assms by (intro power_increasing) simp_all
  then have "unat w < 2 ^ LENGTH('a)"
    using unat_u32_less [of w] by linarith
  then show ?thesis
    by (simp add: unsigned_ucast_eq take_bit_nat_eq_self)
qed

lemma counter_no_wrap:
  assumes "32 \<le> LENGTH('a::len)" and "unat mx + 1 < 2 ^ LENGTH('a)"
    and "asid \<le> (ucast (mx :: u32) :: 'a word)"
  shows "unat (asid + 1) = Suc (unat asid)"
proof -
  have "unat asid \<le> unat mx"
    using assms(3) by (simp add: word_le_nat_alt unat_ucast_u32 [OF assms(1)])
  then have "unat asid + unat (1 :: 'a word) < 2 ^ LENGTH('a)"
    using assms(2) by simp
  then show ?thesis
    by (simp add: unat_add_lem [THEN iffD1])
qed

text \<open>Where the counter cannot wrap, the loop returns after one call for each AS number.\<close>

lemma brk_range_insert_each:
  assumes w: "32 \<le> LENGTH('a::len)" and nw: "unat mx + 1 < 2 ^ LENGTH('a)"
  shows "brk_range tree c (asid :: 'a word) mx
           = Some (insert_each tree c (map of_nat [unat asid..<Suc (unat mx)]))"
proof (induction "Suc (unat mx) - unat asid" arbitrary: tree asid rule: less_induct)
  case less
  show ?case
  proof (cases "asid \<le> ucast mx")
    case False
    then have "\<not> unat asid \<le> unat mx"
      by (simp add: word_le_nat_alt unat_ucast_u32 [OF w])
    then have "[unat asid..<Suc (unat mx)] = []"
      by simp
    moreover have "brk_range tree c asid mx = Some (Some tree)"
      using False by (subst brk_range.simps) simp
    ultimately show ?thesis by simp
  next
    case True
    then have le: "unat asid \<le> unat mx"
      by (simp add: word_le_nat_alt unat_ucast_u32 [OF w])
    have s: "unat (asid + 1) = Suc (unat asid)"
      using w nw True by (rule counter_no_wrap)
    have l: "[unat asid..<Suc (unat mx)] = unat asid # [unat (asid + 1)..<Suc (unat mx)]"
      using le by (simp add: s upt_conv_Cons)
    have u: "brk_range tree c asid mx = (case insert_brk tree c (ucast asid) of
           None \<Rightarrow> Some None
         | Some tree' \<Rightarrow> brk_range tree' c (asid + 1) mx)"
      using True by (subst brk_range.simps) simp
    have e: "insert_each tree c (map of_nat [unat asid..<Suc (unat mx)]) =
        (case insert_brk tree c (ucast asid) of
           None \<Rightarrow> None
         | Some tree' \<Rightarrow> insert_each tree' c (map of_nat [unat (asid + 1)..<Suc (unat mx)]))"
      by (subst l) (simp del: upt_Suc)
    show ?thesis
    proof (cases "insert_brk tree c (ucast asid)")
      case None
      then show ?thesis by (simp only: u e option.case)
    next
      case (Some t1)
      have "Suc (unat mx) - unat (asid + 1) < Suc (unat mx) - unat asid"
        using le s by simp
      then have "brk_range t1 c (asid + 1) mx
          = Some (insert_each t1 c (map of_nat [unat (asid + 1)..<Suc (unat mx)]))"
        by (rule less)
      then show ?thesis
        using Some by (simp only: u e option.case)
    qed
  qed
qed

text \<open>
  Where the bound is the largest value of the counter, the test \<open>asid <= max\<close> is
  always true: the loop returns only through the null dereference, and with the
  strings of the certificate present it does not return.
\<close>

lemma brk_range_wrap_returns:
  assumes "brk_range tree c (asid :: 'a::len word) mx = Some r"
  shows "(ucast mx :: 'a word) = - 1 \<longrightarrow> r = None"
proof (rule brk_range.raw_induct
    [where P = "\<lambda>tree c (asid :: 'a word) mx r. (ucast mx :: 'a word) = - 1 \<longrightarrow> r = None",
      OF _ assms])
  fix loop :: "brk_tree \<Rightarrow> cert \<Rightarrow> 'a word \<Rightarrow> u32 \<Rightarrow> brk_tree option option"
    and tree c and asid :: "'a word" and mx r
  assume IH: "\<And>tree c asid mx r. loop tree c asid mx = Some r \<Longrightarrow>
      (ucast mx :: 'a word) = - 1 \<longrightarrow> r = None"
    and h: "(if asid \<le> ucast mx
        then case insert_brk tree c (ucast asid) of None \<Rightarrow> Some None
             | Some tree' \<Rightarrow> loop tree' c (asid + 1) mx
        else Some (Some tree)) = Some r"
  show "(ucast mx :: 'a word) = - 1 \<longrightarrow> r = None"
  proof
    assume m: "(ucast mx :: 'a word) = - 1"
    then have "asid \<le> ucast mx"
      by simp
    with h have h': "(case insert_brk tree c (ucast asid) of None \<Rightarrow> Some None
           | Some tree' \<Rightarrow> loop tree' c (asid + 1) mx) = Some r"
      by simp
    show "r = None"
    proof (cases "insert_brk tree c (ucast asid)")
      case None
      with h' show ?thesis by simp
    next
      case (Some t1)
      with h' have "loop t1 c (asid + 1) mx = Some r" by simp
      then show ?thesis
        using IH m by blast
    qed
  qed
qed



lemma not_wrap_bound:
  assumes "32 \<le> LENGTH('a::len)" and "(ucast (mx :: u32) :: 'a word) \<noteq> - 1"
  shows "unat mx + 1 < 2 ^ LENGTH('a)"
proof -
  have "unat (ucast mx :: 'a word) \<noteq> unat (- 1 :: 'a word)"
    using assms(2) by (simp add: word_unat_eq_iff)
  moreover have "unat (ucast mx :: 'a word) < 2 ^ LENGTH('a)"
    by (rule unsigned_less)
  ultimately show ?thesis
    by (simp add: unat_ucast_u32 [OF assms(1)] unsigned_minus_1_eq_mask mask_eq_exp_minus_1)
qed

lemma wide_bound:
  assumes "32 < LENGTH('a::len)"
  shows "unat (mx :: u32) + 1 < 2 ^ LENGTH('a)"
proof -
  have "(2 :: nat) ^ 32 < 2 ^ LENGTH('a)"
    using assms by (intro power_strict_increasing) simp_all
  then show ?thesis
    using unat_u32_less [of mx] by linarith
qed

text \<open>Whenever the loop returns a tree, it has made one call for each AS number.\<close>

lemma brk_range_returned:
  assumes "32 \<le> LENGTH('a::len)"
    and "brk_range tree c (ucast mn :: 'a word) mx = Some (Some tree')"
  shows "insert_each tree c (as_ids mn mx) = Some tree'"
proof (cases "(ucast mx :: 'a word) = - 1")
  case True
  then show ?thesis
    using brk_range_wrap_returns [OF assms(2)] by simp
next
  case False
  have "unat mx + 1 < 2 ^ LENGTH('a)"
    using assms(1) False by (rule not_wrap_bound)
  then show ?thesis
    using brk_range_insert_each [OF assms(1), where mx = mx and tree = tree and c = c
        and asid = "ucast mn"] assms(2)
    by (simp add: as_ids_def unat_ucast_u32 [OF assms(1)])
qed

lemma cert_insert_brks_loop_returned:
  assumes "32 \<le> LENGTH('a::len)"
  shows "cert_insert_brks_loop TYPE('a) tree c es = Some (Some tree') \<Longrightarrow>
         insert_each tree c (cert_asids es) = Some tree'"
proof (induction es arbitrary: tree)
  case Nil
  then show ?case by simp
next
  case (Cons e es)
  show ?case
  proof (cases e)
    case (AS_Id i)
    with Cons.prems obtain t1 where t1: "insert_brk tree c i = Some t1"
      and r: "cert_insert_brks_loop TYPE('a) t1 c es = Some (Some tree')"
      by (auto split: option.splits)
    show ?thesis
      using Cons.IH [OF r] t1 AS_Id by simp
  next
    case AS_Inherit
    with Cons show ?thesis by simp
  next
    case (AS_Range mn mx)
    with Cons.prems obtain t1 where t1: "brk_range tree c (ucast mn :: 'a word) mx = Some (Some t1)"
      and r: "cert_insert_brks_loop TYPE('a) t1 c es = Some (Some tree')"
      by (auto split: option.splits)
    have "insert_each tree c (as_ids mn mx) = Some t1"
      using assms t1 by (rule brk_range_returned)
    then show ?thesis
      using Cons.IH [OF r] AS_Range by (simp add: insert_each_append)
  qed
qed

lemma cert_insert_brks_loop_wide:
  assumes "32 < LENGTH('a::len)"
  shows "cert_insert_brks_loop TYPE('a) tree c es = Some (insert_each tree c (cert_asids es))"
proof (induction es arbitrary: tree)
  case Nil
  show ?case by simp
next
  case (Cons e es)
  have w: "32 \<le> LENGTH('a)"
    using assms by simp
  show ?case
  proof (cases e)
    case (AS_Id i)
    then show ?thesis
      using Cons.IH by (simp split: option.splits)
  next
    case AS_Inherit
    then show ?thesis
      using Cons.IH by simp
  next
    case (AS_Range mn mx)
    have "brk_range tree c (ucast mn :: 'a word) mx = Some (insert_each tree c (as_ids mn mx))"
      using brk_range_insert_each [OF w wide_bound [OF assms], where tree = tree and c = c
          and asid = "ucast mn" and mx = mx]
      by (simp add: as_ids_def unat_ucast_u32 [OF w])
    then show ?thesis
      using Cons.IH AS_Range by (simp add: insert_each_append split: option.splits)
  qed
qed

lemma as_ids_example: "as_ids 64510 64512 = [64510, 64511, 64512]"
  by (simp add: as_ids_def upt_rec)

lemma router_asids: "cert_asids (as router_cert) = [64500, 64510, 64511, 64512]"
  by (simp add: router_cert_def cert0_def as_ids_example)

lemma router_strings:
  "tal router_cert = Some ''ta.tal''" "ski router_cert = Some ''BB''" "pubkey router_cert = Some ''KEY''"
  by (simp_all add: router_cert_def cert0_def)

text \<open>
  Claim C7. Let \<open>asid\<close> be one of the AS numbers of a router certificate (an \<open>id\<close> entry
  or a member of a \<open>range\<close> entry) whose key \<open>(asid, ski, pubkey)\<close> collides with the
  entry \<open>f\<close> of a tree that has one entry per key. Then the tree that
  \<open>cert_insert_brks\<close> returns has one entry per key and exactly one entry for that
  key: \<open>f\<close> with the later of the two expiry times, carrying the TAL of the certificate
  if the new expiry is later and its own TAL otherwise; when the new expiry is not
  later that entry is \<open>f\<close> unchanged. Where \<open>size_t\<close> is wider than 32 bits the call
  does return a tree. The same holds for the single call of \<open>insert_brk\<close>, which
  leaves the whole tree unchanged when the new expiry is not later.
\<close>

theorem cert_insert_brks_collision:
  assumes w: "32 \<le> LENGTH('a::len)"
    and inv: "distinct (map brk_key tree)"
    and c: "tal c = Some t" "ski c = Some s" "pubkey c = Some k"
    and f: "f \<in> set tree" "brk_key f = (asid, s, k)"
    and a: "asid \<in> set (cert_asids (as c))"
  shows "(cert_insert_brks TYPE('a) tree c = Some (Some tree') \<longrightarrow>
            distinct (map brk_key tree') \<and>
            filter (\<lambda>x. brk_key x = (asid, s, k)) tree' = [keep_later c t f]) \<and>
         (32 < LENGTH('a) \<longrightarrow> (\<exists>t2. cert_insert_brks TYPE('a) tree c = Some (Some t2))) \<and>
         sint (brk_expires (keep_later c t f)) = max (sint (brk_expires f)) (sint (expires c)) \<and>
         brk_tal (keep_later c t f)
           = (if sint (brk_expires f) < sint (expires c) then t else brk_tal f) \<and>
         (\<not> sint (brk_expires f) < sint (expires c) \<longrightarrow> keep_later c t f = f) \<and>
         (\<exists>t1. insert_brk tree c asid = Some t1 \<and> map brk_key t1 = map brk_key tree \<and>
               filter (\<lambda>x. brk_key x = (asid, s, k)) t1 = [keep_later c t f] \<and>
               (\<not> sint (brk_expires f) < sint (expires c) \<longrightarrow> t1 = tree))"
proof -
  have k: "distinct (map brk_key tree') \<and>
      filter (\<lambda>x. brk_key x = (asid, s, k)) tree' = [keep_later c t f]"
    if r: "cert_insert_brks TYPE('a) tree c = Some (Some tree')"
  proof -
    have e: "insert_each tree c (cert_asids (as c)) = Some tree'"
      using cert_insert_brks_loop_returned [OF w] r by (simp add: cert_insert_brks_def)
    show ?thesis
      using insert_each_key [OF c inv f e] a by simp
  qed
  have l: "\<exists>t2. cert_insert_brks TYPE('a) tree c = Some (Some t2)" if "32 < LENGTH('a)"
    using cert_insert_brks_loop_wide [OF that, of tree c "as c"]
      insert_each_total [OF c, of tree "cert_asids (as c)"]
    by (auto simp: cert_insert_brks_def)
  have m: "sint (brk_expires (keep_later c t f)) = max (sint (brk_expires f)) (sint (expires c))"
    "brk_tal (keep_later c t f) = (if sint (brk_expires f) < sint (expires c) then t else brk_tal f)"
    "\<not> sint (brk_expires f) < sint (expires c) \<longrightarrow> keep_later c t f = f"
    by (simp_all add: keep_later_def)
  show ?thesis
    using k l m insert_brk_same_key [OF inv c f] by blast
qed

text \<open>
  Scenario S6: the tree holds a key for AS 64500 that expires at 1000; the router
  certificate for the same key expires at 2000. The call returns a tree in which that
  key carries the new expiry and the TAL of the certificate.
\<close>

theorem cert_insert_brks_collision_witness:
  "\<exists>tree'. cert_insert_brks TYPE(64) [brk0] router_cert = Some (Some tree') \<and>
     distinct (map brk_key tree') \<and>
     filter (\<lambda>x. brk_key x = (64500, ''BB'', ''KEY'')) tree'
       = [brk0\<lparr>brk_tal := ''ta.tal'', brk_expires := 2000\<rparr>]"
proof -
  have w: "32 \<le> LENGTH(64)" by simp
  have inv: "distinct (map brk_key [brk0])" by simp
  have f: "brk0 \<in> set [brk0]" "brk_key brk0 = (64500, ''BB'', ''KEY'')"
    by (simp_all add: brk0_def brk_key_def)
  have a: "(64500 :: u32) \<in> set (cert_asids (as router_cert))"
    by (simp add: router_asids)
  have x: "keep_later router_cert ''ta.tal'' brk0 = brk0\<lparr>brk_tal := ''ta.tal'', brk_expires := 2000\<rparr>"
    by (simp add: keep_later_def brk0_def router_cert_def cert0_def)
  obtain tree' where t: "insert_each [brk0] router_cert (cert_asids (as router_cert)) = Some tree'"
    using insert_each_total [OF router_strings] by blast
  have "32 < LENGTH(64)" by simp
  then have r: "cert_insert_brks TYPE(64) [brk0] router_cert = Some (Some tree')"
    using cert_insert_brks_loop_wide [where 'a = 64, of "[brk0]" router_cert "as router_cert"] t
    by (simp add: cert_insert_brks_def)
  show ?thesis
    using cert_insert_brks_collision [OF w inv router_strings f a, where tree' = tree'] r
    by (simp add: x)
qed




lemma cert_insert_brks_scenario:
  "\<exists>tree'. cert_insert_brks TYPE(64) [] router_cert = Some (Some tree') \<and>
     map brk_key tree' =
       [(64500, ''BB'', ''KEY''), (64510, ''BB'', ''KEY''), (64511, ''BB'', ''KEY''),
        (64512, ''BB'', ''KEY'')]"
proof -
  have "32 < LENGTH(64)" by simp
  then have "cert_insert_brks TYPE(64) [] router_cert
      = Some (insert_each [] router_cert [64500, 64510, 64511, 64512])"
    using cert_insert_brks_loop_wide [where 'a = 64, of "[]" router_cert "as router_cert"]
    by (simp add: cert_insert_brks_def router_asids)
  then show ?thesis
    by (simp add: router_cert_def cert0_def insert_brk_def brkcmp_def brk_key_def)
qed

section \<open>Verification: certificate parsing\<close>

lemma strstr_prefix: "strstr m r = Some 0 \<longleftrightarrow> is_prefix r m"
  by (cases m) (auto simp: is_prefix_def)

lemma sia_resource_fields:
  "sbgp_sia_resource_carepo c d = Inr c' \<Longrightarrow> aia c' = aia c \<and> crl c' = crl c"
  "sbgp_sia_resource_mft c d = Inr c' \<Longrightarrow> aia c' = aia c \<and> crl c' = crl c"
  "sbgp_sia_resource_notify c d = Inr c' \<Longrightarrow> aia c' = aia c \<and> crl c' = crl c"
  by (auto simp: sbgp_sia_resource_carepo_def sbgp_sia_resource_mft_def
      sbgp_sia_resource_notify_def split: if_splits)

lemma sia_entry_fields:
  "sbgp_sia_resource_entry c content = Inr c' \<Longrightarrow> aia c' = aia c \<and> crl c' = crl c"
  unfolding sbgp_sia_resource_entry_def
  by (auto split: option.splits if_splits asn1_type.splits dest: sia_resource_fields)

lemma sia_entries_fields:
  "sia_entries c ts = Inr c' \<Longrightarrow> aia c' = aia c \<and> crl c' = crl c"
proof (induction ts arbitrary: c)
  case Nil
  then show ?case by simp
next
  case (Cons t ts)
  from Cons.prems obtain content c1 where t: "t = V_ASN1_SEQUENCE content"
    and e: "sbgp_sia_resource_entry c content = Inr c1"
    and r: "sia_entries c1 ts = Inr c'"
    by (auto split: asn1_type.splits sum.splits)
  show ?case
    using sia_entry_fields [OF e] Cons.IH [OF r] by simp
qed

lemma sbgp_sia_resource_fields:
  "sbgp_sia_resource c payload = Inr c' \<Longrightarrow> aia c' = aia c \<and> crl c' = crl c"
  unfolding sbgp_sia_resource_def
  by (auto split: option.splits sum.splits if_splits dest: sia_entries_fields)

lemma sbgp_sia_resource_prefix:
  "sbgp_sia_resource c payload = Inr c' \<Longrightarrow>
   \<exists>m r. mft c' = Some m \<and> repo c' = Some r \<and> is_prefix r m"
  unfolding sbgp_sia_resource_def
  by (auto simp: strstr_prefix split: option.splits sum.splits if_splits)

lemma sbgp_sia_cases:
  "sbgp_sia c ext = Inr c' \<Longrightarrow> \<exists>payload. sbgp_sia_resource c payload = Inr c'"
  unfolding sbgp_sia_def
  by (auto split: option.splits if_splits asn1_type.splits)

lemma cert_parse_exts_inv:
  "cert_parse_exts ipblk asnum c sia exts = Inr (c', sia') \<Longrightarrow>
   aia c' = aia c \<and> crl c' = crl c \<and>
   (sia' \<longleftrightarrow> sia \<or> list_ex (\<lambda>e. OBJ_obj2nid (ext_object e) = NID_sinfo_access) exts) \<and>
   ((sia \<longrightarrow> (\<exists>m r. mft c = Some m \<and> repo c = Some r \<and> is_prefix r m)) \<longrightarrow>
    (sia' \<longrightarrow> (\<exists>m r. mft c' = Some m \<and> repo c' = Some r \<and> is_prefix r m)))"
proof (induction ipblk asnum c sia exts rule: cert_parse_exts.induct)
  case (1 ipblk asnum c sia)
  then show ?case by simp
next
  case (2 ipblk asnum c sia ext exts)
  show ?case
  proof (cases "OBJ_obj2nid (ext_object ext)")
    case NID_sbgp_ipAddrBlock
    with "2.prems" obtain ips' where i: "ipblk (ips c) ext = Some ips'"
      and r: "cert_parse_exts ipblk asnum (c\<lparr>ips := ips'\<rparr>) sia exts = Inr (c', sia')"
      by (auto split: option.splits)
    show ?thesis
      using "2.IH"(1) [OF NID_sbgp_ipAddrBlock i r] NID_sbgp_ipAddrBlock by simp
  next
    case NID_sbgp_autonomousSysNum
    with "2.prems" obtain as' where i: "asnum (as c) ext = Some as'"
      and r: "cert_parse_exts ipblk asnum (c\<lparr>as := as'\<rparr>) sia exts = Inr (c', sia')"
      by (auto split: option.splits)
    show ?thesis
      using "2.IH"(2) [OF NID_sbgp_autonomousSysNum i r] NID_sbgp_autonomousSysNum by simp
  next
    case NID_sinfo_access
    with "2.prems" obtain c1 where i: "sbgp_sia c ext = Inr c1"
      and r: "cert_parse_exts ipblk asnum c1 True exts = Inr (c', sia')"
      by (auto split: sum.splits)
    from i obtain payload where p: "sbgp_sia_resource c payload = Inr c1"
      using sbgp_sia_cases by blast
    show ?thesis
      using "2.IH"(3) [OF NID_sinfo_access i r] NID_sinfo_access
        sbgp_sia_resource_fields [OF p] sbgp_sia_resource_prefix [OF p]
      by simp
  next
    case NID_crl_distribution_points
    with "2.prems" "2.IH"(4) show ?thesis by simp
  next
    case NID_info_access
    with "2.prems" "2.IH"(5) show ?thesis by simp
  next
    case NID_authority_key_identifier
    with "2.prems" "2.IH"(6) show ?thesis by simp
  next
    case NID_subject_key_identifier
    with "2.prems" "2.IH"(7) show ?thesis by simp
  next
    case NID_ext_key_usage
    with "2.prems" "2.IH"(8) show ?thesis by simp
  next
    case NID_undef
    with "2.prems" "2.IH"(9) show ?thesis by simp
  qed
qed

lemma cert_purpose_check_fields:
  "cert_purpose_check x sia c = Inr c' \<Longrightarrow>
   aki c' = aki c \<and> ski c' = ski c \<and> aia c' = aia c \<and> crl c' = crl c \<and>
   mft c' = mft c \<and> repo c' = repo c"
  unfolding cert_purpose_check_def
  by (auto simp: Let_def split: cert_purpose.splits if_splits)

lemma cert_identity_check_ok:
  "cert_identity_check ta c = Inr c' \<Longrightarrow> c' = c \<and> ski c \<noteq> None \<and> identity_ok ta c"
  unfolding cert_identity_check_def identity_ok_def
  by (auto simp: strcmp_eq split: option.splits if_splits)

lemma cert_identity_check_conv:
  "ski c \<noteq> None \<Longrightarrow> identity_ok ta c \<Longrightarrow> cert_identity_check ta c = Inr c"
  unfolding cert_identity_check_def identity_ok_def
  by (auto simp: strcmp_eq split: option.splits if_splits)

lemma cert_parse_inner_steps:
  assumes "cert_parse_inner ipblk asnum der ta = Inr c"
  obtains x c1 sia c4 c5 where
    "der = Some (Some x)"
    "cert_parse_exts ipblk asnum cert0 False (x509_exts x) = Inr (c1, sia)"
    "aki c4 = x509_get_aki x ta" "ski c4 = x509_get_ski x"
    "aia c4 = (if ta then aia c1 else x509_get_aia x)"
    "crl c4 = (if ta then crl c1 else x509_get_crl x)"
    "mft c4 = mft c1" "repo c4 = repo c1"
    "cert_purpose_check x sia c4 = Inr c5"
    "cert_identity_check ta c5 = Inr c5"
    "c = c5\<lparr>x509 := Some (x509_handle x)\<rparr>"
proof -
  from assms obtain x where d: "der = Some (Some x)"
    by (auto simp: cert_parse_inner_def split: option.splits)
  from assms d obtain c1 sia where e:
    "cert_parse_exts ipblk asnum cert0 False (x509_exts x) = Inr (c1, sia)"
    by (auto simp: cert_parse_inner_def split: sum.splits)
  define c4 where "c4 = (if \<not> ta
      then c1\<lparr>aki := x509_get_aki x ta, ski := x509_get_ski x\<rparr>\<lparr>aia := x509_get_aia x, crl := x509_get_crl x\<rparr>
      else c1\<lparr>aki := x509_get_aki x ta, ski := x509_get_ski x\<rparr>)
        \<lparr>expires := x509_get_expire x, purpose := x509_get_purpose x\<rparr>"
  from assms d e obtain c5 where p: "cert_purpose_check x sia c4 = Inr c5"
    by (auto simp: cert_parse_inner_def Let_def c4_def split: sum.splits)
  from assms d e p obtain c6 where i: "cert_identity_check ta c5 = Inr c6"
    and c: "c = c6\<lparr>x509 := Some (x509_handle x)\<rparr>"
    by (auto simp: cert_parse_inner_def Let_def c4_def split: sum.splits)
  have "c6 = c5"
    using cert_identity_check_ok [OF i] by simp
  then show ?thesis
    using d e p i c by (intro that [of x c1 sia c4 c5]) (simp_all add: c4_def)
qed

lemma cert0_fields: "aia cert0 = None" "crl cert0 = None" "mft cert0 = None" "repo cert0 = None"
  by (simp_all add: cert0_def)

text \<open>
  The record that \<open>cert_parse_inner\<close> returns meets the identity constraints: with
  \<open>is_ta\<close> set, \<open>aki\<close> is absent or equal to \<open>ski\<close>, and \<open>aia\<close> and \<open>crl\<close> are absent; with
  \<open>is_ta\<close> clear, \<open>aki\<close> is present and differs from \<open>ski\<close>, and \<open>aia\<close> is present; in
  both cases \<open>ski\<close> is present. The tests on the record reject every record that
  violates them.
\<close>

lemma cert_parse_inner_identity:
  "(cert_parse_inner ipblk asnum der ta = Inr c \<longrightarrow> ski c \<noteq> None \<and> identity_ok ta c) \<and>
   (\<not> identity_ok ta c' \<longrightarrow> cert_identity_check ta c' = Inl Rejected)"
proof (rule conjI; rule impI)
  assume a: "cert_parse_inner ipblk asnum der ta = Inr c"
  show "ski c \<noteq> None \<and> identity_ok ta c"
  proof (rule cert_parse_inner_steps [OF a])
    fix x c5
    assume i: "cert_identity_check ta c5 = Inr c5"
      and c: "c = c5\<lparr>x509 := Some (x509_handle x)\<rparr>"
    show ?thesis
      using cert_identity_check_ok [OF i] by (simp add: c identity_ok_def)
  qed
next
  assume n: "\<not> identity_ok ta c'"
  show "cert_identity_check ta c' = Inl Rejected"
  proof (cases "cert_identity_check ta c'")
    case (Inl e)
    then show ?thesis by (cases e) (auto simp: cert_identity_check_def split: option.splits if_splits)
  next
    case (Inr c'')
    then show ?thesis using cert_identity_check_ok [OF Inr] n by simp
  qed
qed

text \<open>
  The trust anchor of scenario S1 is accepted with \<open>aki\<close> equal to \<open>ski\<close>; the same
  certificate parsed as a non-anchor is rejected, since \<open>aki\<close> equals \<open>ski\<close>.
\<close>

lemma cert_parse_inner_identity_example:
  "cert_parse_inner ipblk0 asnum0 (Some (Some ta_x509)) True = Inr ta_parsed \<and>
   ski ta_parsed \<noteq> None \<and> identity_ok True ta_parsed \<and>
   \<not> identity_ok False ta_parsed \<and> cert_identity_check False ta_parsed = Inl Rejected"
proof -
  have p: "cert_parse_inner ipblk0 asnum0 (Some (Some ta_x509)) True = Inr ta_parsed"
    by code_simp
  have n: "\<not> identity_ok False ta_parsed"
    by code_simp
  show ?thesis
    using cert_parse_inner_identity [of ipblk0 asnum0 "Some (Some ta_x509)" True ta_parsed ta_parsed]
      cert_parse_inner_identity [of ipblk0 asnum0 "Some (Some ta_x509)" False ta_parsed ta_parsed]
      p n
    by simp
qed

text \<open>
  For a trust anchor \<open>x509_get_aia\<close> and \<open>x509_get_crl\<close> are not called, so what the
  certificate carries there has no effect on the result.
\<close>

lemma ta_aia_crl_ignored:
  "cert_parse_inner ipblk asnum (Some (Some (x\<lparr>x509_get_aia := a, x509_get_crl := r\<rparr>))) True
   = cert_parse_inner ipblk asnum (Some (Some x)) True"
proof -
  have "cert_purpose_check (x\<lparr>x509_get_aia := a, x509_get_crl := r\<rparr>) s c
      = cert_purpose_check x s c" for s c
    by (cases "purpose c") (simp_all add: cert_purpose_check_def Let_def)
  then show ?thesis
    by (simp add: cert_parse_inner_def Let_def split: sum.splits prod.splits)
qed

text \<open>
  Claim C5 fails on the code: with \<open>is_ta\<close> set, \<open>aia\<close> and \<open>crl\<close> of the record are never
  filled in, so the tests ``trust anchor must not have AIA'' and ``trust anchor may not
  specify CRL resource'' cannot fire. The trust anchor of scenario S1, carrying an
  AIA and a CRL location, is accepted, and the record has \<open>aia\<close> and \<open>crl\<close> absent.
\<close>

theorem ta_aia_crl_accepted:
  "x509_get_aia ta_aia_x509 = Some ''rsync://ta.example/ta.cer'' \<and>
   x509_get_crl ta_aia_x509 = Some ''rsync://ta.example/ta.crl'' \<and>
   cert_parse_inner ipblk0 asnum0 (Some (Some ta_aia_x509)) True = Inr ta_parsed \<and>
   aia ta_parsed = None \<and> crl ta_parsed = None \<and>
   cert_parse_inner ipblk0 asnum0 (Some (Some ta_aia_x509)) True
     = cert_parse_inner ipblk0 asnum0 (Some (Some ta_x509)) True"
  by code_simp

text \<open>
  Claim C6. Whenever \<open>sbgp_sia_resource\<close> succeeds, \<open>mft\<close> and \<open>repo\<close> are present and \<open>repo\<close>
  is a byte-prefix of \<open>mft\<close>; when the entries of a payload parse and leave a \<open>repo\<close> that
  is not a byte-prefix of \<open>mft\<close>, the payload is rejected; and every certificate that
  \<open>cert_parse_inner\<close> accepts and that carries an SIA extension has \<open>repo\<close> a byte-prefix
  of \<open>mft\<close>.
\<close>

theorem sia_repo_prefix_of_mft:
  "(sbgp_sia_resource c payload = Inr c' \<longrightarrow>
      (\<exists>m r. mft c' = Some m \<and> repo c' = Some r \<and> is_prefix r m)) \<and>
   (sia_entries c seq = Inr c1 \<and> mft c1 = Some m1 \<and> repo c1 = Some r1 \<and> \<not> is_prefix r1 m1 \<longrightarrow>
      sbgp_sia_resource c (Some seq) = Inl Rejected) \<and>
   (cert_parse_inner ipblk asnum (Some (Some x)) ta = Inr cf \<and> has_sia x \<longrightarrow>
      (\<exists>m r. mft cf = Some m \<and> repo cf = Some r \<and> is_prefix r m))"
proof (intro conjI impI)
  assume "sbgp_sia_resource c payload = Inr c'"
  then show "\<exists>m r. mft c' = Some m \<and> repo c' = Some r \<and> is_prefix r m"
    by (rule sbgp_sia_resource_prefix)
next
  assume "sia_entries c seq = Inr c1 \<and> mft c1 = Some m1 \<and> repo c1 = Some r1 \<and> \<not> is_prefix r1 m1"
  then show "sbgp_sia_resource c (Some seq) = Inl Rejected"
    by (simp add: sbgp_sia_resource_def strstr_prefix)
next
  assume a: "cert_parse_inner ipblk asnum (Some (Some x)) ta = Inr cf \<and> has_sia x"
  then have a1: "cert_parse_inner ipblk asnum (Some (Some x)) ta = Inr cf" and a2: "has_sia x"
    by simp_all
  show "\<exists>m r. mft cf = Some m \<and> repo cf = Some r \<and> is_prefix r m"
  proof (rule cert_parse_inner_steps [OF a1])
    fix y c1 sia c4 c5
    assume y: "Some (Some x) = Some (Some y)"
      and e: "cert_parse_exts ipblk asnum cert0 False (x509_exts y) = Inr (c1, sia)"
      and f: "mft c4 = mft c1" "repo c4 = repo c1"
      and p: "cert_purpose_check y sia c4 = Inr c5"
      and c: "cf = c5\<lparr>x509 := Some (x509_handle y)\<rparr>"
    have "sia"
      using cert_parse_exts_inv [OF e] a2 y by (simp add: has_sia_def)
    then have "\<exists>m r. mft c1 = Some m \<and> repo c1 = Some r \<and> is_prefix r m"
      using cert_parse_exts_inv [OF e] by simp
    then show ?thesis
      using cert_purpose_check_fields [OF p] f by (simp add: c)
  qed
qed

theorem sia_repo_prefix_of_mft_witness:
  "cert_parse_inner ipblk0 asnum0 (Some (Some ta_x509)) True = Inr ta_parsed \<and> has_sia ta_x509 \<and>
   (\<exists>m r. mft ta_parsed = Some m \<and> repo ta_parsed = Some r \<and> is_prefix r m) \<and>
   sbgp_sia_resource cert0 sia_conflict = Inl Rejected"
proof -
  have p: "cert_parse_inner ipblk0 asnum0 (Some (Some ta_x509)) True = Inr ta_parsed \<and> has_sia ta_x509"
    by code_simp
  have q: "sia_entries cert0 (the sia_conflict) =
      Inr (cert0\<lparr>repo := Some ''rsync://ta.example/repo/'',
                  mft := Some ''rsync://other.example/repo/ta.mft''\<rparr>)"
    by code_simp
  have n: "\<not> is_prefix ''rsync://ta.example/repo/'' ''rsync://other.example/repo/ta.mft''"
    by code_simp
  have s: "Some (the sia_conflict) = sia_conflict"
    by (simp add: sia_conflict_def)
  show ?thesis
    using sia_repo_prefix_of_mft [of cert0 None cert0 "the sia_conflict"
        "cert0\<lparr>repo := Some ''rsync://ta.example/repo/'', mft := Some ''rsync://other.example/repo/ta.mft''\<rparr>"
        "''rsync://other.example/repo/ta.mft''" "''rsync://ta.example/repo/''"
        ipblk0 asnum0 ta_x509 True ta_parsed]
      p q n s
    by simp
qed

text \<open>
  Claim C9 fails on the code: an SIA payload whose entries all parse but that has no
  rpkiManifest entry, or no caRepository entry, reaches the prefix comparison with a
  null string, and \<open>strstr\<close> dereferences it.
\<close>

theorem sia_missing_entry_null:
  "sbgp_sia_resource cert0 sia_repo_only = Inl NullDeref \<and>
   sbgp_sia_resource cert0 sia_mft_only = Inl NullDeref \<and>
   cert_parse_inner ipblk0 asnum0
     (Some (Some (ta_x509\<lparr>x509_exts := [sia_ext sia_repo_only]\<rparr>))) True = Inl NullDeref"
  by code_simp

section \<open>Verification: serialization\<close>

lemma rbind_Inr: "rbind (Inr (x, b)) f = f x b"
  by (simp add: rbind_def)

lemma le_nat_le_bytes: "n < 256 ^ k \<Longrightarrow> le_nat (le_bytes k n) = n"
proof (induction k arbitrary: n)
  case 0
  then show ?case by simp
next
  case (Suc k)
  have "n div 256 < 256 ^ k"
    using Suc.prems by (simp add: less_mult_imp_div_less mult.commute)
  then have "le_nat (le_bytes k (n div 256)) = n div 256"
    by (rule Suc.IH)
  moreover have "unat (of_nat (n mod 256) :: u8) = n mod 256"
    by (simp add: unat_of_nat)
  ultimately show ?case by simp
qed

lemma length_le_bytes: "length (le_bytes k n) = k"
  by (induction k arbitrary: n) simp_all

lemma io_read_buf_append: "length bs = n \<Longrightarrow> io_read_buf n (bs @ rest) = Inr (bs, rest)"
  by (simp add: io_read_buf_def)

lemma read_u32_bytes: "read_u32 (u32_bytes w @ rest) = Inr (w, rest)"
proof -
  have "unat w < 256 ^ 4"
    using unsigned_less [of w, where 'a = nat] by simp
  then have "le_nat (le_bytes 4 (unat w)) = unat w"
    by (rule le_nat_le_bytes)
  then show ?thesis
    by (simp add: read_u32_def u32_bytes_def io_read_buf_append length_le_bytes rbind_Inr)
qed

lemma read_u64_bytes: "read_u64 (u64_bytes w @ rest) = Inr (w, rest)"
proof -
  have "unat w < 256 ^ 8"
    using unsigned_less [of w, where 'a = nat] by simp
  then have "le_nat (le_bytes 8 (unat w)) = unat w"
    by (rule le_nat_le_bytes)
  then show ?thesis
    by (simp add: read_u64_def u64_bytes_def io_read_buf_append length_le_bytes rbind_Inr)
qed

lemma read_afi_bytes: "read_afi (u32_bytes (afi_code a) @ rest) = Inr (a, rest)"
  by (cases a) (simp_all add: read_afi_def read_u32_bytes rbind_Inr)

lemma read_cert_ip_type_bytes:
  "read_cert_ip_type (u32_bytes (cert_ip_type_code t) @ rest) = Inr (t, rest)"
  by (cases t) (simp_all add: read_cert_ip_type_def read_u32_bytes rbind_Inr)

lemma read_cert_as_type_bytes:
  "read_cert_as_type (u32_bytes (cert_as_type_code t) @ rest) = Inr (t, rest)"
  by (cases t) (simp_all add: read_cert_as_type_def read_u32_bytes rbind_Inr)

lemma read_cert_purpose_bytes:
  "read_cert_purpose (u32_bytes (cert_purpose_code t) @ rest) = Inr (t, rest)"
  by (cases t) (simp_all add: read_cert_purpose_def read_u32_bytes rbind_Inr)

lemma bytes_str_bytes: "bytes_str (str_bytes s) = s"
  by (induction s) (simp_all add: bytes_str_def str_bytes_def unat_of_nat)

lemma unat_length_64: "n < 2 ^ 64 \<Longrightarrow> unat (of_nat n :: 64 word) = n"
  by (simp add: unat_of_nat)

lemma io_str_buffer_out: "io_str_buffer b p = b @ str_out p"
  by (simp add: io_str_buffer_def str_out_def io_simple_buffer_def split: option.splits)

lemma io_read_str_out:
  assumes "str_fits p"
  shows "io_read_str (str_out p @ rest) = Inr (str_back p, rest)"
proof (cases p)
  case None
  then show ?thesis
    by (simp add: io_read_str_def str_out_def io_str_buffer_def io_simple_buffer_def
        read_u64_bytes rbind_Inr str_back_def)
next
  case (Some s)
  show ?thesis
  proof (cases "s = []")
    case True
    then show ?thesis
      using Some
      by (simp add: io_read_str_def str_out_def io_str_buffer_def io_simple_buffer_def
          read_u64_bytes rbind_Inr str_back_def str_bytes_def)
  next
    case False
    have l: "length s < 2 ^ 64"
      using assms Some by (simp add: str_fits_def)
    have u: "unat (of_nat (length s) :: 64 word) = length s"
      using l by (rule unat_length_64)
    then have nz: "(of_nat (length s) :: 64 word) \<noteq> 0"
      using False by (metis length_0_conv unat_0)
    have "io_read_buf (length s) (str_bytes s @ rest) = Inr (str_bytes s, rest)"
      by (rule io_read_buf_append) (simp add: str_bytes_def)
    then show ?thesis
      using Some nz False
      by (simp add: io_read_str_def str_out_def io_str_buffer_def io_simple_buffer_def
          read_u64_bytes rbind_Inr u bytes_str_bytes str_back_def)
  qed
qed

lemma ip_addr_buffer_out: "ip_addr_buffer b a = b @ ip_addr_out a"
  by (simp add: ip_addr_buffer_def ip_addr_out_def io_simple_buffer_def)

lemma ip_addr_read_out:
  assumes "ip_addr_sized a"
  shows "ip_addr_read (ip_addr_out a @ rest) = Inr (a, rest)"
proof -
  have l: "length (addr a @ [prefixlen a]) = 17"
    using assms by (simp add: ip_addr_sized_def)
  have "(addr a @ [prefixlen a]) ! 16 = prefixlen a"
    using assms by (simp add: ip_addr_sized_def nth_append)
  moreover have "take 16 (addr a @ [prefixlen a]) = addr a"
    using assms by (simp add: ip_addr_sized_def)
  ultimately show ?thesis
    using io_read_buf_append [OF l, of rest]
    by (simp add: ip_addr_read_def ip_addr_out_def ip_addr_buffer_def io_simple_buffer_def rbind_Inr)
qed

lemma cert_ip_buffer_out: "cert_ip_buffer b p = b @ cert_ip_out p"
  by (simp add: cert_ip_buffer_def cert_ip_out_def io_simple_buffer_def Let_def
      ip_addr_range_buffer_def ip_addr_buffer_def split: cert_ip_data.splits)

lemma cert_ip_read_out:
  assumes "cert_ip_fits p"
  shows "cert_ip_read (cert_ip_out p @ rest) = Inr (cert_ip_back p, rest)"
proof (cases "ip_data p")
  case (IP_Addr a)
  then have s: "length (ip_min p) = 16" "length (ip_max p) = 16" "ip_addr_sized a"
    using assms by (simp_all add: cert_ip_fits_def)
  have o: "cert_ip_out p = u32_bytes (afi_code (ip_afi p)) @ u32_bytes (cert_ip_type_code CERT_IP_ADDR) @
      ip_min p @ ip_max p @ ip_addr_out a"
    using IP_Addr
    by (simp add: cert_ip_out_def cert_ip_buffer_def io_simple_buffer_def Let_def ip_type_def
        ip_addr_buffer_def ip_addr_out_def)
  have b: "cert_ip_back p = p"
    using IP_Addr by (simp add: cert_ip_back_def)
  have "p = \<lparr>ip_afi = ip_afi p, ip_min = ip_min p, ip_max = ip_max p, ip_data = IP_Addr a\<rparr>"
    using IP_Addr by simp
  then show ?thesis
    by (simp add: o b cert_ip_read_def read_afi_bytes read_cert_ip_type_bytes rbind_Inr
        io_read_buf_append [OF s(1)] io_read_buf_append [OF s(2)] ip_addr_read_out [OF s(3)]
        del: cert_ip_type_code.simps)
next
  case IP_Inherit
  have o: "cert_ip_out p = u32_bytes (afi_code (ip_afi p)) @ u32_bytes (cert_ip_type_code CERT_IP_INHERIT)"
    using IP_Inherit
    by (simp add: cert_ip_out_def cert_ip_buffer_def io_simple_buffer_def Let_def ip_type_def)
  have "cert_ip_back p = \<lparr>ip_afi = ip_afi p, ip_min = zero16, ip_max = zero16, ip_data = IP_Inherit\<rparr>"
    using IP_Inherit by (simp add: cert_ip_back_def)
  then show ?thesis
    by (simp add: o cert_ip_read_def read_afi_bytes read_cert_ip_type_bytes rbind_Inr
        del: cert_ip_type_code.simps)
next
  case (IP_Range lo hi)
  then have s: "length (ip_min p) = 16" "length (ip_max p) = 16" "ip_addr_sized lo" "ip_addr_sized hi"
    using assms by (simp_all add: cert_ip_fits_def)
  have o: "cert_ip_out p = u32_bytes (afi_code (ip_afi p)) @ u32_bytes (cert_ip_type_code CERT_IP_RANGE) @
      ip_min p @ ip_max p @ ip_addr_out lo @ ip_addr_out hi"
    using IP_Range
    by (simp add: cert_ip_out_def cert_ip_buffer_def io_simple_buffer_def Let_def ip_type_def
        ip_addr_range_buffer_def ip_addr_buffer_def ip_addr_out_def)
  have b: "cert_ip_back p = p"
    using IP_Range by (simp add: cert_ip_back_def)
  have "p = \<lparr>ip_afi = ip_afi p, ip_min = ip_min p, ip_max = ip_max p, ip_data = IP_Range lo hi\<rparr>"
    using IP_Range by simp
  then show ?thesis
    by (simp add: o b cert_ip_read_def read_afi_bytes read_cert_ip_type_bytes rbind_Inr
        io_read_buf_append [OF s(1)] io_read_buf_append [OF s(2)] ip_addr_range_read_def
        ip_addr_read_out [OF s(3)] ip_addr_read_out [OF s(4)]
        del: cert_ip_type_code.simps)
qed

lemma cert_as_buffer_out: "cert_as_buffer b p = b @ cert_as_out p"
  by (simp add: cert_as_buffer_def cert_as_out_def io_simple_buffer_def Let_def
      split: cert_as.splits)

lemma cert_as_read_out: "cert_as_read (cert_as_out p @ rest) = Inr (p, rest)"
  by (cases p)
     (simp_all add: cert_as_out_def cert_as_buffer_def io_simple_buffer_def Let_def
       cert_as_read_def read_cert_as_type_bytes read_u32_bytes rbind_Inr
       del: cert_as_type_code.simps)

lemma cert_ips_buffer_out: "cert_ips_buffer b ps = b @ concat (map cert_ip_out ps)"
  by (induction ps arbitrary: b) (simp_all add: cert_ip_buffer_out)

lemma cert_ass_buffer_out: "cert_ass_buffer b ps = b @ concat (map cert_as_out ps)"
  by (induction ps arbitrary: b) (simp_all add: cert_as_buffer_out)

lemma read_n_ips:
  "list_all cert_ip_fits ps \<Longrightarrow>
   read_n (length ps) cert_ip_read (concat (map cert_ip_out ps) @ rest)
     = Inr (map cert_ip_back ps, rest)"
  by (induction ps) (simp_all add: cert_ip_read_out rbind_Inr)

lemma read_n_ass:
  "read_n (length ps) cert_as_read (concat (map cert_as_out ps) @ rest) = Inr (ps, rest)"
  by (induction ps) (simp_all add: cert_as_read_out rbind_Inr)

lemma cert_buffer_out:
  "cert_buffer [] c =
     u32_bytes (valid c) @ u64_bytes (expires c) @ u32_bytes (cert_purpose_code (purpose c)) @
     u64_bytes (of_nat (length (ips c))) @ concat (map cert_ip_out (ips c)) @
     u64_bytes (of_nat (length (as c))) @ concat (map cert_as_out (as c)) @
     str_out (mft c) @ str_out (notify c) @ str_out (repo c) @ str_out (crl c) @
     str_out (aia c) @ str_out (aki c) @ str_out (ski c) @ str_out (tal c) @ str_out (pubkey c)"
  by (simp add: cert_buffer_def Let_def io_simple_buffer_def cert_ips_buffer_out
      cert_ass_buffer_out io_str_buffer_out)

lemma cert_read_buffer:
  assumes "cert_fits c"
  shows "cert_read (cert_buffer [] c @ rest) =
           (if (str_back (mft c) = None \<and> purpose c \<noteq> CERT_PURPOSE_BGPSEC_ROUTER) \<or>
               str_back (ski c) = None
            then Inl Assert_Failed else Inr (cert_back c, rest))"
proof -
  have s: "list_all cert_ip_fits (ips c)"
    "unat (of_nat (length (ips c)) :: 64 word) = length (ips c)"
    "unat (of_nat (length (as c)) :: 64 word) = length (as c)"
    "str_fits (mft c)" "str_fits (notify c)" "str_fits (repo c)" "str_fits (crl c)"
    "str_fits (aia c)" "str_fits (aki c)" "str_fits (ski c)" "str_fits (tal c)"
    "str_fits (pubkey c)"
    using assms by (simp_all add: cert_fits_def unat_length_64)
  have r: "\<lparr>ips = map cert_ip_back (ips c), as = as c, repo = str_back (repo c),
      mft = str_back (mft c), notify = str_back (notify c), crl = str_back (crl c),
      aia = str_back (aia c), aki = str_back (aki c), ski = str_back (ski c),
      tal = str_back (tal c), purpose = purpose c, pubkey = str_back (pubkey c),
      valid = valid c, x509 = None, expires = expires c\<rparr> = cert_back c"
    by (simp add: cert_back_def)
  have e: "cert_read (cert_buffer [] c @ rest) =
      (if (str_back (mft c) = None \<and> purpose c \<noteq> CERT_PURPOSE_BGPSEC_ROUTER) \<or>
          str_back (ski c) = None
       then Inl Assert_Failed
       else Inr (\<lparr>ips = map cert_ip_back (ips c), as = as c, repo = str_back (repo c),
         mft = str_back (mft c), notify = str_back (notify c), crl = str_back (crl c),
         aia = str_back (aia c), aki = str_back (aki c), ski = str_back (ski c),
         tal = str_back (tal c), purpose = purpose c, pubkey = str_back (pubkey c),
         valid = valid c, x509 = None, expires = expires c\<rparr>, rest))"
    unfolding cert_buffer_out cert_read_def
    by (simp add: read_u32_bytes read_u64_bytes read_cert_purpose_bytes rbind_Inr s
        read_n_ips read_n_ass io_read_str_out)
  show ?thesis
    by (simp only: e r)
qed

lemma str_back_plain: "p \<noteq> Some [] \<Longrightarrow> str_back p = p"
  by (cases p) (simp_all add: str_back_def)

lemma cert_ip_back_zeroed: "cert_ip_zeroed p \<Longrightarrow> cert_ip_back p = p"
  by (cases "ip_data p") (auto simp: cert_ip_zeroed_def cert_ip_back_def)

lemma cert_back_plain:
  assumes "cert_plain c"
  shows "cert_back c = c\<lparr>x509 := None\<rparr>"
proof -
  have "map cert_ip_back (ips c) = ips c"
    using assms by (intro map_idI) (simp add: cert_plain_def list_all_iff cert_ip_back_zeroed)
  moreover have "str_back (mft c) = mft c" "str_back (notify c) = notify c"
    "str_back (repo c) = repo c" "str_back (crl c) = crl c" "str_back (aia c) = aia c"
    "str_back (aki c) = aki c" "str_back (ski c) = ski c" "str_back (tal c) = tal c"
    "str_back (pubkey c) = pubkey c"
    using assms by (simp_all add: cert_plain_def str_back_plain)
  ultimately show ?thesis
    by (simp add: cert_back_def)
qed

lemma ta_parsed_fits: "cert_fits ta_parsed"
  by (simp add: cert_fits_def ta_parsed_def ta_cert_def cert0_def str_fits_def cert_ip_fits_def
      v4_prefix_def v4_def ip_addr_sized_def)

lemma ta_parsed_plain: "cert_plain ta_parsed"
  by (simp add: cert_plain_def ta_parsed_def ta_cert_def cert0_def cert_ip_zeroed_def
      v4_prefix_def)

lemma ta_parsed_back: "cert_back ta_parsed = ta_parsed\<lparr>x509 := None\<rparr>"
  using ta_parsed_plain by (rule cert_back_plain)

lemma child_parsed_fits: "cert_fits child_parsed"
  by (simp add: cert_fits_def child_parsed_def ta_cert_def cert0_def str_fits_def cert_ip_fits_def
      v4_prefix_def v4_def ip_addr_sized_def)

lemma child_parsed_back: "cert_back child_parsed = child_parsed\<lparr>aia := None, x509 := None\<rparr>"
  by (simp add: cert_back_def child_parsed_def ta_cert_def cert0_def str_back_def
      cert_ip_back_def v4_prefix_def)

lemma cert_field_neq: "x509 a \<noteq> x509 b \<Longrightarrow> a \<noteq> b"
  by auto

text \<open>
  Claim C3, as stated, fails in two ways. The record that \<open>cert_parse_inner\<close> returns
  for the trust anchor of scenario S1 holds the X.509 handle in \<open>x509\<close>; \<open>cert_buffer\<close>
  does not write that field and \<open>cert_read\<close> leaves it NULL. The record that
  \<open>cert_parse_inner\<close> returns for a child certificate whose AIA location is the empty
  string holds that string in \<open>aia\<close>; it is written with length 0, which \<open>io_read_str\<close>
  reads back as NULL. In both cases the record read back differs from the one written.
\<close>

theorem cert_roundtrip_differs:
  "cert_parse_inner ipblk0 asnum0 (Some (Some ta_x509)) True = Inr ta_parsed \<and>
   cert_read (cert_buffer [] ta_parsed) = Inr (ta_parsed\<lparr>x509 := None\<rparr>, []) \<and>
   x509 ta_parsed = Some 1 \<and>
   cert_read (cert_buffer [] ta_parsed) \<noteq> Inr (ta_parsed, []) \<and>
   cert_parse_inner ipblk0 asnum0 (Some (Some child_x509)) False = Inr child_parsed \<and>
   cert_read (cert_buffer [] child_parsed) = Inr (child_parsed\<lparr>aia := None, x509 := None\<rparr>, []) \<and>
   aia child_parsed = Some [] \<and> x509 child_parsed = Some 2 \<and>
   cert_read (cert_buffer [] child_parsed) \<noteq> Inr (child_parsed, [])"
proof -
  have p: "cert_parse_inner ipblk0 asnum0 (Some (Some ta_x509)) True = Inr ta_parsed"
    by code_simp
  have q: "cert_parse_inner ipblk0 asnum0 (Some (Some child_x509)) False = Inr child_parsed"
    by code_simp
  have r: "cert_read (cert_buffer [] ta_parsed) = Inr (ta_parsed\<lparr>x509 := None\<rparr>, [])"
    using cert_read_buffer [OF ta_parsed_fits, of "[]"]
    by (simp add: ta_parsed_back) (simp add: ta_parsed_def ta_cert_def cert0_def str_back_def)
  have s: "cert_read (cert_buffer [] child_parsed)
      = Inr (child_parsed\<lparr>aia := None, x509 := None\<rparr>, [])"
    using cert_read_buffer [OF child_parsed_fits, of "[]"]
    by (simp add: child_parsed_back) (simp add: child_parsed_def ta_cert_def cert0_def str_back_def)
  have x: "x509 ta_parsed = Some 1" "aia child_parsed = Some []" "x509 child_parsed = Some 2"
    by (simp_all add: ta_parsed_def child_parsed_def)
  have n: "ta_parsed\<lparr>x509 := None\<rparr> \<noteq> ta_parsed"
    by (rule cert_field_neq) (simp add: x)
  have m: "child_parsed\<lparr>aia := None, x509 := None\<rparr> \<noteq> child_parsed"
    by (rule cert_field_neq) (simp add: x)
  show ?thesis
    using p q n m x by (simp add: r s)
qed

text \<open>
  Claim C3, amended. For every certificate record whose arrays, counts and string
  lengths fit the C types, so for every parsed one, reading back what \<open>cert_buffer\<close>
  wrote consumes exactly the bytes written and yields a record equal to the one
  written in every field, with three exceptions: \<open>x509\<close> is NULL in the result; a string
  field that holds the empty string is NULL in the result; and the \<open>min\<close> and \<open>max\<close> of
  an inherit IP entry, which are not written, are zero in the result. So a record
  without an empty string whose inherit entries have zero \<open>min\<close> and \<open>max\<close> comes back
  equal in every field except \<open>x509\<close>. \<open>cert_read\<close> returns unless \<open>ski\<close>, or \<open>mft\<close> of a
  certificate that is not a BGPsec router certificate, is NULL or empty in the record
  written; then its assertion fails.
\<close>

theorem cert_roundtrip_read_back:
  assumes "cert_fits c"
  shows "cert_read (cert_buffer [] c @ rest) =
           (if (str_back (mft c) = None \<and> purpose c \<noteq> CERT_PURPOSE_BGPSEC_ROUTER) \<or>
               str_back (ski c) = None
            then Inl Assert_Failed else Inr (cert_back c, rest)) \<and>
         valid (cert_back c) = valid c \<and> expires (cert_back c) = expires c \<and>
         purpose (cert_back c) = purpose c \<and> as (cert_back c) = as c \<and>
         ips (cert_back c) = map cert_ip_back (ips c) \<and>
         mft (cert_back c) = str_back (mft c) \<and> notify (cert_back c) = str_back (notify c) \<and>
         repo (cert_back c) = str_back (repo c) \<and> crl (cert_back c) = str_back (crl c) \<and>
         aia (cert_back c) = str_back (aia c) \<and> aki (cert_back c) = str_back (aki c) \<and>
         ski (cert_back c) = str_back (ski c) \<and> tal (cert_back c) = str_back (tal c) \<and>
         pubkey (cert_back c) = str_back (pubkey c) \<and> x509 (cert_back c) = None \<and>
         (cert_plain c \<longrightarrow> cert_back c = c\<lparr>x509 := None\<rparr>) \<and>
         (cert_plain c \<and> ski c \<noteq> None \<and> (mft c \<noteq> None \<or> purpose c = CERT_PURPOSE_BGPSEC_ROUTER) \<longrightarrow>
            cert_read (cert_buffer [] c @ rest) = Inr (c\<lparr>x509 := None\<rparr>, rest))"
proof -
  have a: "cert_read (cert_buffer [] c @ rest) =
           (if (str_back (mft c) = None \<and> purpose c \<noteq> CERT_PURPOSE_BGPSEC_ROUTER) \<or>
               str_back (ski c) = None
            then Inl Assert_Failed else Inr (cert_back c, rest))"
    using assms by (rule cert_read_buffer)
  have f: "valid (cert_back c) = valid c \<and> expires (cert_back c) = expires c \<and>
         purpose (cert_back c) = purpose c \<and> as (cert_back c) = as c \<and>
         ips (cert_back c) = map cert_ip_back (ips c) \<and>
         mft (cert_back c) = str_back (mft c) \<and> notify (cert_back c) = str_back (notify c) \<and>
         repo (cert_back c) = str_back (repo c) \<and> crl (cert_back c) = str_back (crl c) \<and>
         aia (cert_back c) = str_back (aia c) \<and> aki (cert_back c) = str_back (aki c) \<and>
         ski (cert_back c) = str_back (ski c) \<and> tal (cert_back c) = str_back (tal c) \<and>
         pubkey (cert_back c) = str_back (pubkey c) \<and> x509 (cert_back c) = None"
    by (simp add: cert_back_def)
  have p: "cert_plain c \<longrightarrow> cert_back c = c\<lparr>x509 := None\<rparr>"
    by (simp add: cert_back_plain)
  have q: "cert_read (cert_buffer [] c @ rest) = Inr (c\<lparr>x509 := None\<rparr>, rest)"
    if h: "cert_plain c \<and> ski c \<noteq> None \<and> (mft c \<noteq> None \<or> purpose c = CERT_PURPOSE_BGPSEC_ROUTER)"
  proof -
    have "str_back (mft c) = mft c" "str_back (ski c) = ski c"
      using h by (simp_all add: cert_plain_def str_back_plain)
    then show ?thesis
      using h a by (auto simp: cert_back_plain)
  qed
  show ?thesis
    using a f p q by blast
qed

text \<open>
  The router certificate of scenario S6, the parsed trust anchor of scenario S1, and
  the child certificate with the empty AIA location.
\<close>

theorem cert_roundtrip_read_back_witness:
  "cert_fits router_cert \<and>
   cert_read (cert_buffer [] router_cert @ [1, 2, 3]) = Inr (router_cert, [1, 2, 3]) \<and>
   cert_fits ta_parsed \<and> cert_plain ta_parsed \<and>
   cert_read (cert_buffer [] ta_parsed @ []) = Inr (ta_parsed\<lparr>x509 := None\<rparr>, []) \<and>
   cert_fits child_parsed \<and>
   cert_read (cert_buffer [] child_parsed @ [])
     = Inr (child_parsed\<lparr>aia := None, x509 := None\<rparr>, [])"
proof -
  have s: "cert_fits router_cert"
    by (simp add: cert_fits_def router_cert_def cert0_def str_fits_def)
  have b: "cert_back router_cert = router_cert"
    by (simp add: cert_back_def router_cert_def cert0_def str_back_def)
  have g: "str_back (ski router_cert) = Some ''BB''" "purpose router_cert = CERT_PURPOSE_BGPSEC_ROUTER"
    "str_back (mft ta_parsed) = Some ''rsync://ta.example/repo/ta.mft''"
    "str_back (ski ta_parsed) = Some ''AA''"
    "str_back (mft child_parsed) = Some ''rsync://ta.example/repo/ta.mft''"
    "str_back (ski child_parsed) = Some ''CC''"
    by (simp_all add: router_cert_def ta_parsed_def child_parsed_def ta_cert_def cert0_def
        str_back_def)
  show ?thesis
    using s cert_roundtrip_read_back [OF s, of "[1, 2, 3]"]
      ta_parsed_fits cert_roundtrip_read_back [OF ta_parsed_fits, of "[]"]
      child_parsed_fits cert_roundtrip_read_back [OF child_parsed_fits, of "[]"]
    by (simp add: b g ta_parsed_back child_parsed_back ta_parsed_plain)
qed

end
